theory Spec2Isabelle
  imports Main "HOL-Library.AList"
begin


section \<open>Python strings\<close>

text \<open>
  A Python \<open>str\<close> is modelled as a \<open>string\<close> whose characters are the code points
  below 256. On these code points the definitions below agree with the interpreter:
  \<open>str.isspace\<close> holds for 9..13, 28..32, 133 and 160, and \<open>str.lower\<close> adds 32 to
  65..90 and to 192..222 except 215.
\<close>

datatype error =
    ValueError | IndexError | TypeError | AttributeError | YAMLError
  | FileNotFoundError | FileExistsError | NotADirectoryError | IsADirectoryError
  | SameFileError | KeyError | OSError

definition isspace :: "char \<Rightarrow> bool" where
  "isspace c = (let n = (of_char c :: nat) in
     (9 \<le> n \<and> n \<le> 13) \<or> (28 \<le> n \<and> n \<le> 32) \<or> n = 133 \<or> n = 160)"

definition lower_char :: "char \<Rightarrow> char" where
  "lower_char c = (let n = (of_char c :: nat) in
     if (65 \<le> n \<and> n \<le> 90) \<or> (192 \<le> n \<and> n \<le> 222 \<and> n \<noteq> 215)
     then char_of (n + 32) else c)"

definition py_lower :: "string \<Rightarrow> string" where
  "py_lower s = map lower_char s"

definition py_strip :: "string \<Rightarrow> string" where
  "py_strip s = rev (dropWhile isspace (rev (dropWhile isspace s)))"

text \<open>\<open>s.split()\<close>: the maximal runs of non-space characters, \<open>cur\<close> being the run read so far.\<close>

fun split_acc :: "string \<Rightarrow> string \<Rightarrow> string list" where
  "split_acc cur [] = (if cur = [] then [] else [cur])"
| "split_acc cur (c # cs) =
     (if isspace c then (if cur = [] then split_acc [] cs else cur # split_acc [] cs)
      else split_acc (cur @ [c]) cs)"

definition py_split :: "string \<Rightarrow> string list" where
  "py_split s = split_acc [] s"

fun py_join :: "string \<Rightarrow> string list \<Rightarrow> string" where
  "py_join sep [] = []"
| "py_join sep [x] = x"
| "py_join sep (x # y # ys) = x @ sep @ py_join sep (y # ys)"

text \<open>\<open>s.endswith(suffix)\<close>.\<close>

definition endswith :: "string \<Rightarrow> string \<Rightarrow> bool" where
  "endswith s suf = (length suf \<le> length s \<and> drop (length s - length suf) s = suf)"

text \<open>
  \<open>int(s)\<close> on a field produced by \<open>split\<close>, which holds no space: an optional sign, then
  decimal digits, single underscores allowed between two digits. Anything else raises
  \<open>ValueError\<close>. (The limit some interpreters put on the number of digits is not modelled.)
\<close>

definition digit_val :: "char \<Rightarrow> nat option" where
  "digit_val c = (let n = (of_char c :: nat) in
     if 48 \<le> n \<and> n \<le> 57 then Some (n - 48) else None)"

fun parse_digits :: "nat \<Rightarrow> string \<Rightarrow> nat option" where
  "parse_digits acc [] = Some acc"
| "parse_digits acc (c # cs) =
     (if c = CHR ''_'' then
        (case cs of
           [] \<Rightarrow> None
         | d # ds \<Rightarrow> (case digit_val d of
                      None \<Rightarrow> None
                    | Some v \<Rightarrow> parse_digits (10 * acc + v) ds))
      else (case digit_val c of
              None \<Rightarrow> None
            | Some v \<Rightarrow> parse_digits (10 * acc + v) cs))"

definition parse_unsigned :: "string \<Rightarrow> nat option" where
  "parse_unsigned s = (case s of
       [] \<Rightarrow> None
     | c # cs \<Rightarrow> (case digit_val c of None \<Rightarrow> None | Some v \<Rightarrow> parse_digits v cs))"

definition py_int :: "string \<Rightarrow> error + int" where
  "py_int s = (case s of
       [] \<Rightarrow> Inl ValueError
     | c # cs \<Rightarrow>
         if c = CHR ''-'' then
           (case parse_unsigned cs of None \<Rightarrow> Inl ValueError | Some n \<Rightarrow> Inr (- int n))
         else if c = CHR ''+'' then
           (case parse_unsigned cs of None \<Rightarrow> Inl ValueError | Some n \<Rightarrow> Inr (int n))
         else
           (case parse_unsigned s of None \<Rightarrow> Inl ValueError | Some n \<Rightarrow> Inr (int n)))"

text \<open>\<open>str(i)\<close> for an integer.\<close>

fun dec :: "nat \<Rightarrow> string" where
  "dec n = (if n < 10 then [char_of (48 + n)]
            else dec (n div 10) @ [char_of (48 + n mod 10)])"

declare dec.simps [simp del]

definition py_str :: "int \<Rightarrow> string" where
  "py_str i = (if i < 0 then CHR ''-'' # dec (nat (- i)) else dec (nat i))"

section \<open>Configuration\<close>

definition TARGET_CLASSES :: "string list" where
  "TARGET_CLASSES = [''person'', ''phone'', ''material'', ''headphones'']"

text \<open>The dictionary \<open>CLASS_MAPPING\<close>, its items in the order the loop of \<open>normalize_class\<close> visits them.\<close>

definition CLASS_MAPPING :: "(string \<times> string) list" where
  "CLASS_MAPPING =
    [(''person'', ''person''), (''student'', ''person''), (''face'', ''person''),
     (''head'', ''person''), (''human'', ''person''), (''people'', ''person''),
     (''man'', ''person''), (''woman'', ''person''),
     (''phone'', ''phone''), (''mobile'', ''phone''), (''cell phone'', ''phone''),
     (''telephone'', ''phone''), (''smartphone'', ''phone''), (''cellphone'', ''phone''),
     (''mobile phone'', ''phone''), (''iphone'', ''phone''), (''android'', ''phone''),
     (''paper'', ''material''), (''document'', ''material''), (''book'', ''material''),
     (''notebook'', ''material''), (''notes'', ''material''), (''sheet'', ''material''),
     (''material'', ''material''), (''cheat sheet'', ''material''),
     (''headphone'', ''headphones''), (''headphones'', ''headphones''),
     (''earphone'', ''headphones''), (''earphones'', ''headphones''),
     (''headset'', ''headphones''), (''earbuds'', ''headphones''),
     (''earbud'', ''headphones''), (''airpods'', ''headphones''),
     (''ear device'', ''headphones'')]"

section \<open>normalize_class\<close>

text \<open>\<open>xs.index(x)\<close>: the first position of \<open>x\<close>, \<open>ValueError\<close> when there is none.\<close>

fun list_index :: "'a list \<Rightarrow> 'a \<Rightarrow> error + nat" where
  "list_index [] x = Inl ValueError"
| "list_index (y # ys) x =
     (if y = x then Inr 0
      else (case list_index ys x of Inl e \<Rightarrow> Inl e | Inr i \<Rightarrow> Inr (Suc i)))"

text \<open>The loop \<open>for key, target in CLASS_MAPPING.items()\<close> over the remaining items.\<close>

fun normalize_loop :: "(string \<times> string) list \<Rightarrow> string \<Rightarrow> error + int" where
  "normalize_loop [] class_name = Inr (- 1)"
| "normalize_loop ((key, target) # rest) class_name =
     (if py_lower key = class_name then
        (case list_index TARGET_CLASSES target of Inl e \<Rightarrow> Inl e | Inr i \<Rightarrow> Inr (int i))
      else normalize_loop rest class_name)"

definition normalize_class :: "string \<Rightarrow> error + int" where
  "normalize_class class_name = normalize_loop CLASS_MAPPING (py_strip (py_lower class_name))"

text \<open>The canonical index of a canonical class name: its position in \<open>TARGET_CLASSES\<close>.\<close>

definition canonical_index :: "string \<Rightarrow> int" where
  "canonical_index t =
     (if t = ''person'' then 0 else if t = ''phone'' then 1
      else if t = ''material'' then 2 else 3)"

section \<open>Values read from a metadata file\<close>

text \<open>
  What \<open>yaml.safe_load\<close> returns: null, booleans, integers, strings, lists and
  dictionaries (their items in insertion order); \<open>YOther\<close> stands for the remaining
  scalars (floats, dates), which have neither a length nor a method \<open>lower\<close>.
\<close>

datatype yaml =
    YNull | YBool bool | YInt int | YStr string
  | YList "yaml list" | YDict "(yaml \<times> yaml) list" | YOther

text \<open>\<open>config.get('names', [])\<close>; only a dictionary has the method \<open>get\<close>.\<close>

definition config_names :: "yaml \<Rightarrow> error + yaml" where
  "config_names config = (case config of
       YDict kvs \<Rightarrow> (case map_of kvs (YStr ''names'') of
                      None \<Rightarrow> Inr (YList [])
                    | Some v \<Rightarrow> Inr v)
     | _ \<Rightarrow> Inl AttributeError)"

text \<open>\<open>if isinstance(source_classes, dict): source_classes = list(source_classes.values())\<close>.\<close>

definition source_classes_of :: "yaml \<Rightarrow> yaml" where
  "source_classes_of names = (case names of
       YDict kvs \<Rightarrow> YList (map snd kvs)
     | _ \<Rightarrow> names)"

text \<open>\<open>len(x)\<close>.\<close>

definition py_len :: "yaml \<Rightarrow> error + nat" where
  "py_len x = (case x of
       YList xs \<Rightarrow> Inr (length xs)
     | YStr s \<Rightarrow> Inr (length s)
     | YDict kvs \<Rightarrow> Inr (length kvs)
     | _ \<Rightarrow> Inl TypeError)"

text \<open>
  \<open>xs[i]\<close> on a sequence of length \<open>n\<close>: the positions are \<open>0..n-1\<close>, a negative \<open>i\<close> from
  \<open>-n\<close> on counts from the end, anything else raises \<open>IndexError\<close>.
\<close>

definition seq_get :: "'a list \<Rightarrow> int \<Rightarrow> error + 'a" where
  "seq_get xs i =
     (if 0 \<le> i \<and> i < int (length xs) then Inr (xs ! nat i)
      else if i < 0 \<and> - int (length xs) \<le> i then Inr (xs ! nat (int (length xs) + i))
      else Inl IndexError)"

text \<open>\<open>x[i]\<close>; a character of a string is a string of length one, a dictionary is read by key.\<close>

definition py_getitem :: "yaml \<Rightarrow> int \<Rightarrow> error + yaml" where
  "py_getitem x i = (case x of
       YList xs \<Rightarrow> seq_get xs i
     | YStr s \<Rightarrow> (case seq_get s i of Inl e \<Rightarrow> Inl e | Inr c \<Rightarrow> Inr (YStr [c]))
     | YDict kvs \<Rightarrow> (case map_of kvs (YInt i) of None \<Rightarrow> Inl KeyError | Some v \<Rightarrow> Inr v)
     | _ \<Rightarrow> Inl TypeError)"

text \<open>\<open>normalize_class(old_class_name)\<close>; only a string has the method \<open>lower\<close>.\<close>

definition normalize_value :: "yaml \<Rightarrow> error + int" where
  "normalize_value v = (case v of
       YStr s \<Rightarrow> normalize_class s
     | _ \<Rightarrow> Inl AttributeError)"

section \<open>Rewriting a label file\<close>

text \<open>
  The body of the loop over the lines of a label file: \<open>None\<close> when the line is
  dropped, the rewritten line when it is appended to \<open>new_lines\<close>.
\<close>

definition convert_line :: "yaml \<Rightarrow> string \<Rightarrow> error + string option" where
  "convert_line source_classes line =
     (let parts = py_split (py_strip line) in
      if length parts < 5 then Inr None
      else
        (case py_int (parts ! 0) of
           Inl e \<Rightarrow> Inl e
         | Inr old_class_id \<Rightarrow>
             (case py_len source_classes of
                Inl e \<Rightarrow> Inl e
              | Inr n \<Rightarrow>
                  if old_class_id < int n then
                    (case py_getitem source_classes old_class_id of
                       Inl e \<Rightarrow> Inl e
                     | Inr old_class_name \<Rightarrow>
                         (case normalize_value old_class_name of
                            Inl e \<Rightarrow> Inl e
                          | Inr new_class_id \<Rightarrow>
                              if new_class_id \<ge> 0 then
                                Inr (Some (py_join '' '' (parts[0 := py_str new_class_id])))
                              else Inr None))
                  else Inr None)))"

fun convert_lines :: "yaml \<Rightarrow> string list \<Rightarrow> string list \<Rightarrow> error + string list" where
  "convert_lines source_classes [] new_lines = Inr new_lines"
| "convert_lines source_classes (line # lines) new_lines =
     (case convert_line source_classes line of
        Inl e \<Rightarrow> Inl e
      | Inr None \<Rightarrow> convert_lines source_classes lines new_lines
      | Inr (Some l) \<Rightarrow> convert_lines source_classes lines (new_lines @ [l]))"

text \<open>
  \<open>f.readlines()\<close> of a file opened in text mode: \<open>\r\n\<close> and \<open>\r\<close> are read as \<open>\n\<close>,
  and each line keeps its \<open>\n\<close>.
\<close>

fun universal_newlines :: "string \<Rightarrow> string" where
  "universal_newlines [] = []"
| "universal_newlines (c # cs) =
     (if c = CHR 0x0D then
        (case cs of
           [] \<Rightarrow> [CHR 0x0A]
         | d # ds \<Rightarrow> if d = CHR 0x0A then CHR 0x0A # universal_newlines ds
                     else CHR 0x0A # universal_newlines cs)
      else c # universal_newlines cs)"

fun lines_acc :: "string \<Rightarrow> string \<Rightarrow> string list" where
  "lines_acc cur [] = (if cur = [] then [] else [cur])"
| "lines_acc cur (c # cs) =
     (if c = CHR 0x0A then (cur @ [c]) # lines_acc [] cs else lines_acc (cur @ [c]) cs)"

definition readlines :: "string \<Rightarrow> string list" where
  "readlines content = lines_acc [] (universal_newlines content)"

section \<open>The file system\<close>

text \<open>
  A path is the list of its components below a root directory; \<open>os.path.join\<close> appends
  components. A directory holds its entries in the order \<open>os.listdir\<close> and \<open>os.walk\<close>
  report them; a new entry goes to the end. Links and permissions are not modelled.
\<close>

type_synonym path = "string list"

datatype node = File string | Dir "(string \<times> node) list"

fun lookup :: "node \<Rightarrow> path \<Rightarrow> node option" where
  "lookup n [] = Some n"
| "lookup (File c) (x # xs) = None"
| "lookup (Dir es) (x # xs) = (case map_of es x of None \<Rightarrow> None | Some n \<Rightarrow> lookup n xs)"

text \<open>\<open>os.path.exists\<close> and \<open>os.path.isdir\<close>.\<close>

definition path_exists :: "node \<Rightarrow> path \<Rightarrow> bool" where
  "path_exists fs p = (lookup fs p \<noteq> None)"

definition isdir :: "node \<Rightarrow> path \<Rightarrow> bool" where
  "isdir fs p = (case lookup fs p of Some (Dir es) \<Rightarrow> True | _ \<Rightarrow> False)"

text \<open>\<open>os.listdir\<close>.\<close>

definition listdir :: "node \<Rightarrow> path \<Rightarrow> error + string list" where
  "listdir fs p = (case lookup fs p of
       None \<Rightarrow> Inl FileNotFoundError
     | Some (File c) \<Rightarrow> Inl NotADirectoryError
     | Some (Dir es) \<Rightarrow> Inr (map fst es))"

text \<open>Reading a whole file, as \<open>open(p, 'r')\<close> followed by a read does.\<close>

definition read_file :: "node \<Rightarrow> path \<Rightarrow> error + string" where
  "read_file fs p = (case lookup fs p of
       None \<Rightarrow> Inl FileNotFoundError
     | Some (Dir es) \<Rightarrow> Inl IsADirectoryError
     | Some (File c) \<Rightarrow> Inr c)"

text \<open>
  \<open>os.makedirs(p, exist_ok=True)\<close>: every missing directory on the way is created; a
  file on the way is \<open>NotADirectoryError\<close>, a file at \<open>p\<close> itself \<open>FileExistsError\<close>.
\<close>

fun makedirs :: "path \<Rightarrow> node \<Rightarrow> error + node" where
  "makedirs [] (Dir es) = Inr (Dir es)"
| "makedirs [] (File c) = Inl FileExistsError"
| "makedirs (x # xs) (File c) = Inl NotADirectoryError"
| "makedirs (x # xs) (Dir es) =
     (case makedirs xs (case map_of es x of None \<Rightarrow> Dir [] | Some n \<Rightarrow> n) of
        Inl e \<Rightarrow> Inl e
      | Inr n' \<Rightarrow> Inr (Dir (AList.update x n' es)))"

text \<open>
  \<open>open(p, 'w')\<close> followed by one write: the directory of \<open>p\<close> has to exist, and \<open>p\<close>
  must not be a directory; a file at \<open>p\<close> is replaced.
\<close>

fun write_file :: "path \<Rightarrow> string \<Rightarrow> node \<Rightarrow> error + node" where
  "write_file [] content n = Inl IsADirectoryError"
| "write_file (x # xs) content (File c) = Inl NotADirectoryError"
| "write_file [x] content (Dir es) =
     (case map_of es x of
        Some (Dir ds) \<Rightarrow> Inl IsADirectoryError
      | _ \<Rightarrow> Inr (Dir (AList.update x (File content) es)))"
| "write_file (x # y # ys) content (Dir es) =
     (case map_of es x of
        None \<Rightarrow> Inl FileNotFoundError
      | Some n \<Rightarrow> (case write_file (y # ys) content n of
                    Inl e \<Rightarrow> Inl e
                  | Inr n' \<Rightarrow> Inr (Dir (AList.update x n' es))))"

text \<open>The tree without the entry at \<open>p\<close>.\<close>

fun remove :: "path \<Rightarrow> node \<Rightarrow> node" where
  "remove [] n = n"
| "remove (x # xs) (File c) = File c"
| "remove [x] (Dir es) = Dir (AList.delete x es)"
| "remove (x # y # ys) (Dir es) =
     (case map_of es x of
        None \<Rightarrow> Dir es
      | Some n \<Rightarrow> Dir (AList.update x (remove (y # ys) n) es))"

text \<open>
  \<open>shutil.rmtree(p)\<close>. The root directory itself cannot be removed: its entries are
  deleted and the call fails.
\<close>

definition rmtree :: "path \<Rightarrow> node \<Rightarrow> (error + unit) \<times> node" where
  "rmtree p fs = (case lookup fs p of
       None \<Rightarrow> (Inl FileNotFoundError, fs)
     | Some (File c) \<Rightarrow> (Inl NotADirectoryError, fs)
     | Some (Dir es) \<Rightarrow> if p = [] then (Inl OSError, Dir []) else (Inr (), remove p fs))"

text \<open>
  \<open>shutil.copy(src, dst)\<close>: into \<open>dst\<close> under the name of \<open>src\<close> when \<open>dst\<close> is a
  directory; the source is opened before the destination.
\<close>

definition path_name :: "path \<Rightarrow> string" where
  "path_name p = (if p = [] then [] else last p)"

definition shutil_copy :: "path \<Rightarrow> path \<Rightarrow> node \<Rightarrow> error + node" where
  "shutil_copy src dst fs =
     (let dst' = (if isdir fs dst then dst @ [path_name src] else dst) in
      if src = dst' \<and> path_exists fs src then Inl SameFileError
      else (case read_file fs src of
              Inl e \<Rightarrow> Inl e
            | Inr content \<Rightarrow> write_file dst' content fs))"

text \<open>
  The search \<open>for root, dirs, files in os.walk(dataset_dir)\<close> for the first directory,
  top down, among whose files is \<open>data.yaml\<close>.
\<close>

definition has_file :: "(string \<times> node) list \<Rightarrow> string \<Rightarrow> bool" where
  "has_file es name = (case map_of es name of Some (File c) \<Rightarrow> True | _ \<Rightarrow> False)"

fun walk_find :: "path \<Rightarrow> node \<Rightarrow> path option"
  and walk_find_in :: "path \<Rightarrow> (string \<times> node) list \<Rightarrow> path option" where
  "walk_find root (File c) = None"
| "walk_find root (Dir es) =
     (if has_file es ''data.yaml'' then Some (root @ [''data.yaml''])
      else walk_find_in root es)"
| "walk_find_in root [] = None"
| "walk_find_in root ((name, n) # es) =
     (case walk_find (root @ [name]) n of
        Some found \<Rightarrow> Some found
      | None \<Rightarrow> walk_find_in root es)"

definition find_data_yaml :: "node \<Rightarrow> path \<Rightarrow> path option" where
  "find_data_yaml fs dataset_dir = (case lookup fs dataset_dir of
       None \<Rightarrow> None
     | Some n \<Rightarrow> walk_find dataset_dir n)"

section \<open>What a run prints and executes\<close>

text \<open>
  The lines the script prints and the commands it hands to \<open>os.system\<close> are never read
  back by it: every function returns them, in order, next to its result and the file
  system it leaves, also when it raises.
\<close>

datatype message =
    AlreadyExists string | Downloading string | AllDownloaded
  | NoDataYaml path | SourceClasses yaml
  | Preparing | Processing string | Added nat nat
  | Prepared | TotalTrain nat | TotalValid nat | Classes "string list"

datatype command =
    Curl string path
  | Unzip path path
  | Rm path

datatype event = Print message | System command

section \<open>convert_labels\<close>

definition has_image_ext :: "string \<Rightarrow> bool" where
  "has_image_ext img_file =
     (let l = py_lower img_file
      in endswith l ''.jpg'' \<or> endswith l ''.jpeg'' \<or> endswith l ''.png'')"

text \<open>
  \<open>os.path.splitext(p)[0]\<close> for a file name: the part before the last dot, unless only
  dots stand before it.
\<close>

definition splitext_root :: "string \<Rightarrow> string" where
  "splitext_root p =
     (if CHR ''.'' \<in> set p then
        (let pre = rev (tl (dropWhile (\<lambda>c. c \<noteq> CHR ''.'') (rev p)))
         in if list_ex (\<lambda>c. c \<noteq> CHR ''.'') pre then pre else p)
      else p)"

text \<open>The body of the loop over the files of an image directory.\<close>

definition convert_image ::
    "yaml \<Rightarrow> path \<Rightarrow> path \<Rightarrow> string \<Rightarrow> string \<Rightarrow> string \<Rightarrow> nat \<Rightarrow> node \<Rightarrow> (error + nat) \<times> node" where
  "convert_image source_classes dataset_dir output_dir split split_name img_file count fs =
     (if \<not> has_image_ext img_file then (Inr count, fs)
      else
        let img_dir = dataset_dir @ [split_name, ''images''];
            lbl_dir = dataset_dir @ [split_name, ''labels''];
            images_out = output_dir @ [split, ''images''];
            labels_out = output_dir @ [split, ''labels''];
            src_img = img_dir @ [img_file];
            dst_img = images_out @ [path_name dataset_dir @ ''_'' @ img_file]
        in (case shutil_copy src_img dst_img fs of
              Inl e \<Rightarrow> (Inl e, fs)
            | Inr fs1 \<Rightarrow>
                let lbl_file = splitext_root img_file @ ''.txt'';
                    src_lbl = lbl_dir @ [lbl_file];
                    dst_lbl = labels_out @ [path_name dataset_dir @ ''_'' @ lbl_file]
                in if path_exists fs1 src_lbl then
                     (case read_file fs1 src_lbl of
                        Inl e \<Rightarrow> (Inl e, fs1)
                      | Inr content \<Rightarrow>
                          (case convert_lines source_classes (readlines content) [] of
                             Inl e \<Rightarrow> (Inl e, fs1)
                           | Inr new_lines \<Rightarrow>
                               if new_lines \<noteq> [] then
                                 (case write_file dst_lbl (py_join [CHR 0x0A] new_lines) fs1 of
                                    Inl e \<Rightarrow> (Inl e, fs1)
                                  | Inr fs2 \<Rightarrow> (Inr (count + 1), fs2))
                               else (Inr count, fs1)))
                   else (Inr count, fs1)))"

fun convert_images ::
    "yaml \<Rightarrow> path \<Rightarrow> path \<Rightarrow> string \<Rightarrow> string \<Rightarrow> string list \<Rightarrow> nat \<Rightarrow> node \<Rightarrow> (error + nat) \<times> node" where
  "convert_images source_classes dataset_dir output_dir split split_name [] count fs =
     (Inr count, fs)"
| "convert_images source_classes dataset_dir output_dir split split_name (img_file # rest) count fs =
     (case convert_image source_classes dataset_dir output_dir split split_name img_file count fs of
        (Inl e, fs') \<Rightarrow> (Inl e, fs')
      | (Inr count', fs') \<Rightarrow>
          convert_images source_classes dataset_dir output_dir split split_name rest count' fs')"

text \<open>The loop \<open>for split_name in ['train', 'valid', 'test']\<close> over the remaining names.\<close>

fun convert_splits ::
    "yaml \<Rightarrow> path \<Rightarrow> path \<Rightarrow> string \<Rightarrow> string list \<Rightarrow> nat \<Rightarrow> node \<Rightarrow> (error + nat) \<times> node" where
  "convert_splits source_classes dataset_dir output_dir split [] count fs = (Inr count, fs)"
| "convert_splits source_classes dataset_dir output_dir split (split_name # rest) count fs =
     (let img_dir = dataset_dir @ [split_name, ''images''] in
      if \<not> path_exists fs img_dir then
        convert_splits source_classes dataset_dir output_dir split rest count fs
      else
        (case listdir fs img_dir of
           Inl e \<Rightarrow> (Inl e, fs)
         | Inr img_files \<Rightarrow>
             (case convert_images source_classes dataset_dir output_dir split split_name
                     img_files count fs of
                (Inl e, fs') \<Rightarrow> (Inl e, fs')
              | (Inr count', fs') \<Rightarrow>
                  convert_splits source_classes dataset_dir output_dir split rest count' fs')))"

text \<open>
  \<open>convert_labels\<close>. The parser \<open>yaml.safe_load\<close> belongs to a library and is a
  parameter.
\<close>

definition convert_labels ::
    "(string \<Rightarrow> error + yaml) \<Rightarrow> path \<Rightarrow> path \<Rightarrow> string \<Rightarrow> node
       \<Rightarrow> (error + nat) \<times> node \<times> event list" where
  "convert_labels safe_load dataset_dir output_dir split fs =
     (let images_out = output_dir @ [split, ''images''];
          labels_out = output_dir @ [split, ''labels'']
      in case makedirs images_out fs of
           Inl e \<Rightarrow> (Inl e, fs, [])
         | Inr fs1 \<Rightarrow>
        (case makedirs labels_out fs1 of
           Inl e \<Rightarrow> (Inl e, fs1, [])
         | Inr fs2 \<Rightarrow>
        (case find_data_yaml fs2 dataset_dir of
           None \<Rightarrow> (Inr 0, fs2, [Print (NoDataYaml dataset_dir)])
         | Some data_yaml \<Rightarrow>
        (case read_file fs2 data_yaml of
           Inl e \<Rightarrow> (Inl e, fs2, [])
         | Inr content \<Rightarrow>
        (case safe_load content of
           Inl e \<Rightarrow> (Inl e, fs2, [])
         | Inr config \<Rightarrow>
        (case config_names config of
           Inl e \<Rightarrow> (Inl e, fs2, [])
         | Inr names \<Rightarrow>
        (let source_classes = source_classes_of names
         in case convert_splits source_classes dataset_dir output_dir split
                   [''train'', ''valid'', ''test''] 0 fs2 of
              (r, fs3) \<Rightarrow> (r, fs3, [Print (SourceClasses source_classes)]))))))))"

section \<open>prepare_dataset\<close>

definition ROBOFLOW_DATASETS :: "(string \<times> string) list" where
  "ROBOFLOW_DATASETS =
    [(''phone_1'', ''https://app.roboflow.com/ds/5ReObgnLbQ?key=HTPSgVzDLW''),
     (''phone_2'', ''https://app.roboflow.com/ds/f9k54F7Azq?key=eYssUekSYc''),
     (''paper_1'', ''https://app.roboflow.com/ds/inuabMtp6t?key=jbu7HTlrBf''),
     (''paper_2'', ''https://app.roboflow.com/ds/b4oxAhlW40?key=4A761Kjm5F''),
     (''headphones_1'', ''https://app.roboflow.com/ds/qqqEeSKAlk?key=GT1Xa65onI''),
     (''headphones_2'', ''https://app.roboflow.com/ds/cKHwOqmuda?key=qL10KsWlBt''),
     (''person_1'', ''https://app.roboflow.com/ds/PwRwV0c1jL?key=FgXbXeqlpH'')]"

text \<open>The dictionary written to the merged \<open>data.yaml\<close>.\<close>

record manifest =
  m_path :: path
  m_train :: string
  m_val :: string
  m_names :: "(nat \<times> string) list"
  m_nc :: nat

definition merged_manifest :: "path \<Rightarrow> manifest" where
  "merged_manifest output_dir =
     \<lparr>m_path = output_dir, m_train = ''train/images'', m_val = ''valid/images'',
      m_names = List.enumerate 0 TARGET_CLASSES, m_nc = length TARGET_CLASSES\<rparr>"

text \<open>The loop \<open>for name, _ in ROBOFLOW_DATASETS\<close> over the remaining datasets.\<close>

fun prepare_loop ::
    "(string \<Rightarrow> error + yaml) \<Rightarrow> path \<Rightarrow> path \<Rightarrow> (string \<times> string) list \<Rightarrow> nat \<Rightarrow> nat \<Rightarrow> node
       \<Rightarrow> (error + nat \<times> nat) \<times> node \<times> event list" where
  "prepare_loop safe_load raw_dir output_dir [] total_train total_valid fs =
     (Inr (total_train, total_valid), fs, [])"
| "prepare_loop safe_load raw_dir output_dir ((name, url) # rest) total_train total_valid fs =
     (let dataset_dir = raw_dir @ [name] in
      if \<not> path_exists fs dataset_dir then
        prepare_loop safe_load raw_dir output_dir rest total_train total_valid fs
      else
        (case convert_labels safe_load dataset_dir output_dir ''train'' fs of
           (Inl e, fs1, ev1) \<Rightarrow> (Inl e, fs1, Print (Processing name) # ev1)
         | (Inr train_count, fs1, ev1) \<Rightarrow>
        (case convert_labels safe_load dataset_dir output_dir ''valid'' fs1 of
           (Inl e, fs2, ev2) \<Rightarrow> (Inl e, fs2, Print (Processing name) # ev1 @ ev2)
         | (Inr valid_count, fs2, ev2) \<Rightarrow>
        (case prepare_loop safe_load raw_dir output_dir rest
                (total_train + train_count) (total_valid + valid_count) fs2 of
           (r, fs3, ev3) \<Rightarrow>
             (r, fs3, Print (Processing name) # ev1 @ ev2
                        @ Print (Added train_count valid_count) # ev3)))))"

text \<open>
  \<open>prepare_dataset\<close>; \<open>yaml.safe_load\<close> and \<open>yaml.dump\<close> are parameters. It returns the
  path of the merged \<open>data.yaml\<close>. First the output directory is cleared
  (\<open>if os.path.exists(output_dir): shutil.rmtree(output_dir)\<close>), then the datasets are
  converted and the manifest is written.
\<close>

definition clear_output :: "path \<Rightarrow> node \<Rightarrow> (error + unit) \<times> node" where
  "clear_output output_dir fs =
     (if path_exists fs output_dir then rmtree output_dir fs else (Inr (), fs))"

definition build_merged ::
    "(string \<Rightarrow> error + yaml) \<Rightarrow> (manifest \<Rightarrow> string) \<Rightarrow> path \<Rightarrow> path \<Rightarrow> node
       \<Rightarrow> (error + path) \<times> node \<times> event list" where
  "build_merged safe_load dump raw_dir output_dir fs =
     (case prepare_loop safe_load raw_dir output_dir ROBOFLOW_DATASETS 0 0 fs of
        (Inl e, fs1, ev) \<Rightarrow> (Inl e, fs1, ev)
      | (Inr (total_train, total_valid), fs1, ev) \<Rightarrow>
     (case write_file (output_dir @ [''data.yaml'']) (dump (merged_manifest output_dir)) fs1 of
        Inl e \<Rightarrow> (Inl e, fs1, ev)
      | Inr fs2 \<Rightarrow>
          (Inr (output_dir @ [''data.yaml'']), fs2,
           ev @ [Print Prepared, Print (TotalTrain total_train),
                 Print (TotalValid total_valid), Print (Classes TARGET_CLASSES)])))"

definition prepare_dataset ::
    "(string \<Rightarrow> error + yaml) \<Rightarrow> (manifest \<Rightarrow> string) \<Rightarrow> path \<Rightarrow> path \<Rightarrow> node
       \<Rightarrow> (error + path) \<times> node \<times> event list" where
  "prepare_dataset safe_load dump raw_dir output_dir fs =
     (case clear_output output_dir fs of
        (Inl e, fs0) \<Rightarrow> (Inl e, fs0, [Print Preparing])
      | (Inr u, fs0) \<Rightarrow>
          (case build_merged safe_load dump raw_dir output_dir fs0 of
             (r, fs1, ev) \<Rightarrow> (r, fs1, Print Preparing # ev)))"

section \<open>download_datasets\<close>

text \<open>
  \<open>os.system(cmd)\<close> runs a shell command whose result the script ignores. What the
  command does to the file system is the parameter \<open>shell\<close>.
\<close>

definition download_one ::
    "(command \<Rightarrow> node \<Rightarrow> node) \<Rightarrow> path \<Rightarrow> string \<Rightarrow> string \<Rightarrow> node
       \<Rightarrow> (error + unit) \<times> node \<times> event list" where
  "download_one shell output_dir name url fs =
     (let dataset_dir = output_dir @ [name] in
      if path_exists fs dataset_dir then (Inr (), fs, [Print (AlreadyExists name)])
      else
        (case makedirs dataset_dir fs of
           Inl e \<Rightarrow> (Inl e, fs, [Print (Downloading name)])
         | Inr fs1 \<Rightarrow>
             let archive = dataset_dir @ [''dataset.zip''];
                 c1 = Curl url archive; fs2 = shell c1 fs1;
                 c2 = Unzip archive dataset_dir; fs3 = shell c2 fs2;
                 c3 = Rm archive; fs4 = shell c3 fs3
             in (Inr (), fs4, [Print (Downloading name), System c1, System c2, System c3])))"

fun download_loop ::
    "(command \<Rightarrow> node \<Rightarrow> node) \<Rightarrow> path \<Rightarrow> (string \<times> string) list \<Rightarrow> node
       \<Rightarrow> (error + unit) \<times> node \<times> event list" where
  "download_loop shell output_dir [] fs = (Inr (), fs, [])"
| "download_loop shell output_dir ((name, url) # rest) fs =
     (case download_one shell output_dir name url fs of
        (Inl e, fs1, ev1) \<Rightarrow> (Inl e, fs1, ev1)
      | (Inr u, fs1, ev1) \<Rightarrow>
          (case download_loop shell output_dir rest fs1 of
             (r, fs2, ev2) \<Rightarrow> (r, fs2, ev1 @ ev2)))"

definition download_datasets ::
    "(command \<Rightarrow> node \<Rightarrow> node) \<Rightarrow> path \<Rightarrow> node \<Rightarrow> (error + unit) \<times> node \<times> event list" where
  "download_datasets shell output_dir fs =
     (case makedirs output_dir fs of
        Inl e \<Rightarrow> (Inl e, fs, [])
      | Inr fs1 \<Rightarrow>
          (case download_loop shell output_dir ROBOFLOW_DATASETS fs1 of
             (Inl e, fs2, ev) \<Rightarrow> (Inl e, fs2, ev)
           | (Inr u, fs2, ev) \<Rightarrow> (Inr (), fs2, ev @ [Print AllDownloaded])))"

text \<open>The network calls among the events of a run: the \<open>curl\<close> commands.\<close>

fun is_network_call :: "event \<Rightarrow> bool" where
  "is_network_call (System (Curl url archive)) = True"
| "is_network_call _ = False"

text \<open>The dataset directory a command works on.\<close>

fun command_dir :: "command \<Rightarrow> path" where
  "command_dir (Curl url archive) = butlast archive"
| "command_dir (Unzip archive dir) = dir"
| "command_dir (Rm archive) = butlast archive"

section \<open>Changes confined to the output directory\<close>

definition isfile :: "node \<Rightarrow> path \<Rightarrow> bool" where
  "isfile fs p = (case lookup fs p of Some (File c) \<Rightarrow> True | _ \<Rightarrow> False)"

text \<open>
  \<open>fs'\<close> differs from \<open>fs\<close> only below \<open>p\<close>, and when it differs at all \<open>p\<close> is a
  directory of \<open>fs'\<close>.
\<close>

definition confined :: "path \<Rightarrow> node \<Rightarrow> node \<Rightarrow> bool" where
  "confined p fs fs' = (remove p fs' = remove p fs \<and> (fs' = fs \<or> isdir fs' p))"

section \<open>Shell commands that delete no dataset directory\<close>

text \<open>No command removes an entry of the download directory.\<close>

definition keeps_dirs :: "(command \<Rightarrow> node \<Rightarrow> node) \<Rightarrow> path \<Rightarrow> bool" where
  "keeps_dirs shell output_dir =
     (\<forall>c fs name. path_exists fs (output_dir @ [name])
        \<longrightarrow> path_exists (shell c fs) (output_dir @ [name]))"

text \<open>A shell in which every command fails and changes nothing.\<close>

definition idle_shell :: "command \<Rightarrow> node \<Rightarrow> node" where
  "idle_shell c fs = fs"

section \<open>Datasets of one image\<close>

text \<open>
  A dataset holding a metadata file and, in one of its splits, one image with its label
  file; and what the merge leaves for it in one split of the output.
\<close>

definition single_dataset :: "string \<Rightarrow> string \<Rightarrow> string \<Rightarrow> string \<Rightarrow> string \<Rightarrow> node" where
  "single_dataset metadata split_name img_file data label =
     Dir [(''data.yaml'', File metadata),
          (split_name,
           Dir [(''images'', Dir [(img_file, File data)]),
                (''labels'', Dir [(splitext_root img_file @ ''.txt'', File label)])])]"

definition merged_split :: "string \<Rightarrow> string \<Rightarrow> string \<Rightarrow> string \<Rightarrow> node" where
  "merged_split name img_file data new_line =
     Dir [(''images'', Dir [(name @ ''_'' @ img_file, File data)]),
          (''labels'',
           Dir [(name @ ''_'' @ splitext_root img_file @ ''.txt'', File new_line)])]"

text \<open>The files below a path, and among them the images and the label files.\<close>

fun files_of :: "path \<Rightarrow> node \<Rightarrow> path list"
  and files_in :: "path \<Rightarrow> (string \<times> node) list \<Rightarrow> path list" where
  "files_of p (File c) = [p]"
| "files_of p (Dir es) = files_in p es"
| "files_in p [] = []"
| "files_in p ((name, n) # es) = files_of (p @ [name]) n @ files_in p es"

definition files_below :: "node \<Rightarrow> path \<Rightarrow> path list" where
  "files_below fs p = (case lookup fs p of None \<Rightarrow> [] | Some n \<Rightarrow> files_of p n)"

definition is_image_path :: "path \<Rightarrow> bool" where
  "is_image_path p = has_image_ext (path_name p)"

definition is_label_path :: "path \<Rightarrow> bool" where
  "is_label_path p = endswith (path_name p) ''.txt''"

definition image_files :: "node \<Rightarrow> path \<Rightarrow> path list" where
  "image_files fs p = filter is_image_path (files_below fs p)"

definition label_files :: "node \<Rightarrow> path \<Rightarrow> path list" where
  "label_files fs p = filter is_label_path (files_below fs p)"

section \<open>The images of a dataset\<close>

text \<open>
  The paths \<open>convert_labels\<close> reads and writes for the image \<open>img_file\<close> of the split
  \<open>split_name\<close>.
\<close>

definition src_image :: "path \<Rightarrow> string \<Rightarrow> string \<Rightarrow> path" where
  "src_image dataset_dir split_name img_file = dataset_dir @ [split_name, ''images'', img_file]"

definition src_label :: "path \<Rightarrow> string \<Rightarrow> string \<Rightarrow> path" where
  "src_label dataset_dir split_name img_file =
     dataset_dir @ [split_name, ''labels'', splitext_root img_file @ ''.txt'']"

definition dst_image :: "path \<Rightarrow> path \<Rightarrow> string \<Rightarrow> string \<Rightarrow> path" where
  "dst_image dataset_dir output_dir split img_file =
     output_dir @ [split, ''images'', path_name dataset_dir @ ''_'' @ img_file]"

definition dst_label :: "path \<Rightarrow> path \<Rightarrow> string \<Rightarrow> string \<Rightarrow> path" where
  "dst_label dataset_dir output_dir split img_file =
     output_dir @ [split, ''labels'',
                   path_name dataset_dir @ ''_'' @ splitext_root img_file @ ''.txt'']"

text \<open>
  The source images of a dataset, as pairs of a split and a file name, in the order
  the loops of \<open>convert_labels\<close> visit them: the files with an image extension of the
  image directory of \<open>train\<close>, then \<open>valid\<close>, then \<open>test\<close>.
\<close>

definition split_images :: "node \<Rightarrow> path \<Rightarrow> string \<Rightarrow> string list" where
  "split_images fs dataset_dir split_name =
     (case listdir fs (dataset_dir @ [split_name, ''images'']) of
        Inl e \<Rightarrow> []
      | Inr img_files \<Rightarrow> filter has_image_ext img_files)"

definition source_images :: "node \<Rightarrow> path \<Rightarrow> (string \<times> string) list" where
  "source_images fs dataset_dir =
     concat (map (\<lambda>split_name. map (Pair split_name) (split_images fs dataset_dir split_name))
               [''train'', ''valid'', ''test''])"

text \<open>
  The lines of the label file of an image that are kept; none when the image has no
  label file.
\<close>

definition kept_lines :: "yaml \<Rightarrow> node \<Rightarrow> path \<Rightarrow> string \<Rightarrow> string \<Rightarrow> string list" where
  "kept_lines source_classes fs dataset_dir split_name img_file =
     (case read_file fs (src_label dataset_dir split_name img_file) of
        Inl e \<Rightarrow> []
      | Inr content \<Rightarrow>
          (case convert_lines source_classes (readlines content) [] of
             Inl e \<Rightarrow> []
           | Inr new_lines \<Rightarrow> new_lines))"

definition has_label :: "yaml \<Rightarrow> node \<Rightarrow> path \<Rightarrow> string \<times> string \<Rightarrow> bool" where
  "has_label source_classes fs dataset_dir p =
     (kept_lines source_classes fs dataset_dir (fst p) (snd p) \<noteq> [])"

text \<open>The two file systems hold the same below \<open>dataset_dir\<close>.\<close>

definition same_dataset :: "path \<Rightarrow> node \<Rightarrow> node \<Rightarrow> bool" where
  "same_dataset dataset_dir fs fs' = (\<forall>r. lookup fs' (dataset_dir @ r) = lookup fs (dataset_dir @ r))"

text \<open>
  What holds in the loops of \<open>convert_labels\<close>, started on \<open>fs0\<close>, once the images
  \<open>seen\<close> are done, with the count and the file system reached.
\<close>

definition progress ::
    "yaml \<Rightarrow> path \<Rightarrow> path \<Rightarrow> string \<Rightarrow> node \<Rightarrow> (string \<times> string) list \<Rightarrow> nat \<Rightarrow> node \<Rightarrow> bool" where
  "progress source_classes dataset_dir output_dir split fs0 seen count fs =
     (same_dataset dataset_dir fs0 fs
      \<and> (\<forall>x. \<not> isdir fs (output_dir @ [split, ''images'', x]))
      \<and> (\<forall>p \<in> set seen. \<exists>sn data.
            (sn, snd p) \<in> set seen
          \<and> read_file fs0 (src_image dataset_dir sn (snd p)) = Inr data
          \<and> lookup fs (dst_image dataset_dir output_dir split (snd p)) = Some (File data))
      \<and> (\<forall>p \<in> set seen. has_label source_classes fs0 dataset_dir p \<longrightarrow>
            (\<exists>q \<in> set seen. has_label source_classes fs0 dataset_dir q
                \<and> splitext_root (snd q) = splitext_root (snd p)
                \<and> lookup fs (dst_label dataset_dir output_dir split (snd p))
                    = Some (File (py_join [CHR 0x0A]
                        (kept_lines source_classes fs0 dataset_dir (fst q) (snd q))))))
      \<and> count = length (filter (has_label source_classes fs0 dataset_dir) seen)
      \<and> (\<forall>y. lookup fs (output_dir @ [split, ''labels'', y])
                 \<noteq> lookup fs0 (output_dir @ [split, ''labels'', y])
            \<longrightarrow> (\<exists>p \<in> set seen. has_label source_classes fs0 dataset_dir p
                    \<and> y = path_name dataset_dir @ ''_'' @ splitext_root (snd p) @ ''.txt'')))"

section \<open>A synthetic dataset\<close>

text \<open>
  One dataset \<open>phone_1\<close> under \<open>raw\<close>: a metadata file naming the single class
  \<open>mobile\<close>, one image and its label file of one line.
\<close>

definition demo_load :: "string \<Rightarrow> error + yaml" where
  "demo_load s =
     (if s = ''names: [mobile]'' then Inr (YDict [(YStr ''names'', YList [YStr ''mobile''])])
      else Inl YAMLError)"

definition demo_dump :: "manifest \<Rightarrow> string" where
  "demo_dump m = ''manifest''"

definition demo_dataset :: node where
  "demo_dataset =
     Dir [(''data.yaml'', File ''names: [mobile]''),
          (''train'', Dir [(''images'', Dir [(''a.jpg'', File ''JPEG'')]),
                           (''labels'', Dir [(''a.txt'', File ''0 0.5 0.5 0.2 0.2'')])])]"

definition demo_fs :: node where
  "demo_fs = Dir [(''raw'', Dir [(''phone_1'', demo_dataset)])]"

definition demo_split :: node where
  "demo_split =
     Dir [(''images'', Dir [(''phone_1_a.jpg'', File ''JPEG'')]),
          (''labels'', Dir [(''phone_1_a.txt'', File ''1 0.5 0.5 0.2 0.2'')])]"

definition demo_merged :: node where
  "demo_merged =
     Dir [(''raw'', Dir [(''phone_1'', demo_dataset)]),
          (''merged'', Dir [(''train'', demo_split), (''valid'', demo_split),
                            (''data.yaml'', File ''manifest'')])]"

definition demo_events :: "event list" where
  "demo_events =
     [Print Preparing, Print (Processing ''phone_1''),
      Print (SourceClasses (YList [YStr ''mobile''])),
      Print (SourceClasses (YList [YStr ''mobile''])), Print (Added 1 1),
      Print Prepared, Print (TotalTrain 1), Print (TotalValid 1),
      Print (Classes TARGET_CLASSES)]"

text \<open>A dataset \<open>paper_1\<close> without a metadata file, before and after \<open>convert_labels\<close>.\<close>

definition bare_fs :: node where
  "bare_fs =
     Dir [(''raw'', Dir [(''paper_1'',
            Dir [(''train'', Dir [(''images'', Dir [(''a.jpg'', File ''JPEG'')])])])])]"

definition bare_fs1 :: node where
  "bare_fs1 =
     Dir [(''raw'', Dir [(''paper_1'',
            Dir [(''train'', Dir [(''images'', Dir [(''a.jpg'', File ''JPEG'')])])])]),
          (''merged'', Dir [(''train'', Dir [(''images'', Dir [])])])]"

definition bare_fs2 :: node where
  "bare_fs2 =
     Dir [(''raw'', Dir [(''paper_1'',
            Dir [(''train'', Dir [(''images'', Dir [(''a.jpg'', File ''JPEG'')])])])]),
          (''merged'', Dir [(''train'', Dir [(''images'', Dir []), (''labels'', Dir [])])])]"

text \<open>
  A dataset \<open>phone_2\<close> with three images: \<open>a.jpg\<close> has no label file, every line of
  the label file of \<open>b.png\<close> is dropped, and one line of that of \<open>c.jpeg\<close> is kept.
\<close>

definition mixed_fs :: node where
  "mixed_fs =
     Dir [(''raw'', Dir [(''phone_2'',
            Dir [(''data.yaml'', File ''names: [mobile]''),
                 (''train'',
                  Dir [(''images'', Dir [(''a.jpg'', File ''A''), (''b.png'', File ''B''),
                                         (''c.jpeg'', File ''C'')]),
                       (''labels'', Dir [(''b.txt'', File ''0 0.5 0.5''),
                                         (''c.txt'', File ''0 0.5 0.5 0.2 0.2'')])])])]),
          (''merged'', Dir [(''train'', Dir [(''images'', Dir []), (''labels'', Dir [])])])]"

definition mixed_fs_a :: node where
  "mixed_fs_a =
     Dir [(''raw'', Dir [(''phone_2'',
            Dir [(''data.yaml'', File ''names: [mobile]''),
                 (''train'',
                  Dir [(''images'', Dir [(''a.jpg'', File ''A''), (''b.png'', File ''B''),
                                         (''c.jpeg'', File ''C'')]),
                       (''labels'', Dir [(''b.txt'', File ''0 0.5 0.5''),
                                         (''c.txt'', File ''0 0.5 0.5 0.2 0.2'')])])])]),
          (''merged'', Dir [(''train'', Dir [(''images'', Dir [(''phone_2_a.jpg'', File ''A'')]),
                                             (''labels'', Dir [])])])]"

definition mixed_merged :: node where
  "mixed_merged =
     Dir [(''raw'', Dir [(''phone_2'',
            Dir [(''data.yaml'', File ''names: [mobile]''),
                 (''train'',
                  Dir [(''images'', Dir [(''a.jpg'', File ''A''), (''b.png'', File ''B''),
                                         (''c.jpeg'', File ''C'')]),
                       (''labels'', Dir [(''b.txt'', File ''0 0.5 0.5''),
                                         (''c.txt'', File ''0 0.5 0.5 0.2 0.2'')])])])]),
          (''merged'',
           Dir [(''train'',
                 Dir [(''images'', Dir [(''phone_2_a.jpg'', File ''A''),
                                        (''phone_2_b.png'', File ''B''),
                                        (''phone_2_c.jpeg'', File ''C'')]),
                      (''labels'', Dir [(''phone_2_c.txt'', File ''1 0.5 0.5 0.2 0.2'')])])])]"

text \<open>The download directory after a run on \<open>demo_fs\<close> in which every download fails.\<close>

definition demo_downloaded :: node where
  "demo_downloaded =
     Dir [(''raw'', Dir [(''phone_1'', demo_dataset), (''phone_2'', Dir []),
                         (''paper_1'', Dir []), (''paper_2'', Dir []),
                         (''headphones_1'', Dir []), (''headphones_2'', Dir []),
                         (''person_1'', Dir [])])]"

text \<open>The synthetic dataset with the class index \<open>-1\<close> in its label line.\<close>

definition negative_fs :: node where
  "negative_fs =
     Dir [(''raw'', Dir [(''phone_1'',
            Dir [(''data.yaml'', File ''names: [mobile]''),
                 (''train'',
                  Dir [(''images'', Dir [(''a.jpg'', File ''JPEG'')]),
                       (''labels'', Dir [(''a.txt'', File ''-1 0.5 0.5 0.2 0.2'')])])])])]"

text \<open>
  A dataset whose metadata file names its classes by numbers, \<open>names: [0, 1]\<close>: the
  parser reads them as integers.
\<close>

definition numeric_load :: "string \<Rightarrow> error + yaml" where
  "numeric_load s =
     (if s = ''names: [0, 1]'' then Inr (YDict [(YStr ''names'', YList [YInt 0, YInt 1])])
      else Inl YAMLError)"

definition numeric_fs :: node where
  "numeric_fs =
     Dir [(''raw'', Dir [(''phone_1'',
            Dir [(''data.yaml'', File ''names: [0, 1]''),
                 (''train'',
                  Dir [(''images'', Dir [(''a.jpg'', File ''JPEG'')]),
                       (''labels'', Dir [(''a.txt'', File ''0 0.5 0.5 0.2 0.2'')])])])])]"

section \<open>normalize_class and the synonym table\<close>


lemma lower_char_idem: "lower_char (lower_char c) = lower_char c"
  by (auto simp: lower_char_def Let_def)

lemma isspace_lower_char: "isspace (lower_char c) = isspace c"
  by (auto simp: lower_char_def isspace_def Let_def)

lemma py_lower_idem: "py_lower (py_lower s) = py_lower s"
  by (simp add: py_lower_def lower_char_idem)

lemma dropWhile_isspace_lower:
  "dropWhile isspace (map lower_char s) = map lower_char (dropWhile isspace s)"
  by (induction s) (simp_all add: isspace_lower_char)

lemma py_strip_lower: "py_strip (py_lower s) = py_lower (py_strip s)"
  by (simp add: py_strip_def py_lower_def dropWhile_isspace_lower rev_map)

lemma rstrip_Cons:
  "\<not> P x \<Longrightarrow> rev (dropWhile P (rev (x # xs))) = x # rev (dropWhile P (rev xs))"
  by (simp add: dropWhile_append)

lemma py_strip_idem: "py_strip (py_strip s) = py_strip s"
proof -
  define u where "u = dropWhile isspace s"
  have "dropWhile isspace (rev (dropWhile isspace (rev u))) = rev (dropWhile isspace (rev u))"
  proof (cases u)
    case Nil
    then show ?thesis by simp
  next
    case (Cons x xs)
    then have "\<not> isspace x"
      using hd_dropWhile [of isspace s] by (simp add: u_def)
    then show ?thesis
      by (simp add: Cons rstrip_Cons del: rev.simps)
  qed
  then show ?thesis
    by (simp add: py_strip_def u_def)
qed

lemma normalize_arg_idem:
  "py_strip (py_lower (py_strip (py_lower s))) = py_strip (py_lower s)"
  by (simp add: py_strip_lower py_lower_idem py_strip_idem)

lemma normalize_loop_map_of:
  "\<forall>(k, t) \<in> set m. py_lower k = k \<Longrightarrow>
   normalize_loop m c =
     (case map_of m c of
        None \<Rightarrow> Inr (- 1)
      | Some t \<Rightarrow> (case list_index TARGET_CLASSES t of Inl e \<Rightarrow> Inl e | Inr i \<Rightarrow> Inr (int i)))"
  by (induction m) auto

lemma table_keys_normal:
  "list_all (\<lambda>(k, t). py_lower k = k \<and> py_strip k = k) CLASS_MAPPING"
  by code_simp

lemma table_targets:
  "list_all (\<lambda>(k, t). t \<in> set TARGET_CLASSES) CLASS_MAPPING"
  by code_simp

lemma table_keys_distinct: "distinct (map fst CLASS_MAPPING)"
  by code_simp

lemma list_index_nth:
  "x \<in> set xs \<Longrightarrow> \<exists>i < length xs. list_index xs x = Inr i \<and> xs ! i = x"
  by (induction xs) (auto split: sum.splits)

lemma normalize_class_map_of:
  "normalize_class s =
     (case map_of CLASS_MAPPING (py_strip (py_lower s)) of
        None \<Rightarrow> Inr (- 1)
      | Some t \<Rightarrow> (case list_index TARGET_CLASSES t of Inl e \<Rightarrow> Inl e | Inr i \<Rightarrow> Inr (int i)))"
  unfolding normalize_class_def
  using table_keys_normal
  by (intro normalize_loop_map_of) (auto simp: list_all_iff)

lemma table_key_fixed:
  "map_of CLASS_MAPPING s = Some t \<Longrightarrow> py_strip (py_lower s) = s"
  using table_keys_normal by (auto simp: list_all_iff dest!: map_of_SomeD)

lemma table_target_index:
  "map_of CLASS_MAPPING k = Some t \<Longrightarrow>
   \<exists>i < 4. list_index TARGET_CLASSES t = Inr i \<and> TARGET_CLASSES ! i = t"
proof -
  assume "map_of CLASS_MAPPING k = Some t"
  then have "t \<in> set TARGET_CLASSES"
    using table_targets by (auto simp: list_all_iff dest!: map_of_SomeD)
  moreover have "length TARGET_CLASSES = 4"
    by (simp add: TARGET_CLASSES_def)
  ultimately show ?thesis
    using list_index_nth [of t TARGET_CLASSES] by auto
qed

text \<open>
  Claim C3, amended. For a string of the synonym table, \<open>normalize_class\<close> returns
  the position of the entry's target in \<open>TARGET_CLASSES\<close>. The lookup is made on the
  lowercased, stripped argument: a string whose form is in the table gets the position of
  that entry's target, and a string whose form is not in the table gets \<open>-1\<close>.
\<close>

theorem normalize_class_table:
  "(map_of CLASS_MAPPING s = Some t \<longrightarrow>
      (\<exists>i < 4. TARGET_CLASSES ! i = t \<and> normalize_class s = Inr (int i)))
   \<and> (map_of CLASS_MAPPING (py_strip (py_lower s)) = Some t \<longrightarrow>
      (\<exists>i < 4. TARGET_CLASSES ! i = t \<and> normalize_class s = Inr (int i)))
   \<and> (map_of CLASS_MAPPING (py_strip (py_lower s)) = None \<longrightarrow>
      normalize_class s = Inr (- 1))"
proof -
  have present: "\<exists>i < 4. TARGET_CLASSES ! i = t \<and> normalize_class s = Inr (int i)"
    if "map_of CLASS_MAPPING (py_strip (py_lower s)) = Some t"
    using table_target_index [OF that] that
    by (auto simp: normalize_class_map_of)
  have "map_of CLASS_MAPPING (py_strip (py_lower s)) = Some t"
    if "map_of CLASS_MAPPING s = Some t"
    using table_key_fixed [OF that] that by simp
  with present show ?thesis
    by (auto simp: normalize_class_map_of)
qed

theorem normalize_class_table_witness:
  "map_of CLASS_MAPPING ''earbuds'' = Some ''headphones''
   \<and> TARGET_CLASSES ! 3 = ''headphones''
   \<and> normalize_class ''earbuds'' = Inr 3
   \<and> map_of CLASS_MAPPING (py_strip (py_lower ''laptop'')) = None
   \<and> normalize_class ''laptop'' = Inr (- 1)"
proof -
  have a: "map_of CLASS_MAPPING ''earbuds'' = Some ''headphones''" by code_simp
  have b: "map_of CLASS_MAPPING (py_strip (py_lower ''laptop'')) = None" by code_simp
  have c: "TARGET_CLASSES ! 3 = ''headphones''" by code_simp
  have d: "normalize_class ''earbuds'' = Inr 3" by code_simp
  from a b c d normalize_class_table [of "''laptop''" "''phone''"]
     normalize_class_table [of "''earbuds''" "''headphones''"]
  show ?thesis by blast
qed

text \<open>
  The claim C3 as it was stated fails: \<open>Phone\<close> is not a key of the table, and it is
  not sent to \<open>-1\<close>.
\<close>

theorem normalize_class_absent_counterexample:
  "\<not> (map_of CLASS_MAPPING ''Phone'' = None \<longrightarrow> normalize_class ''Phone'' = Inr (- 1))"
  by code_simp

text \<open>
  Claim C4. The lookup ignores case and surrounding whitespace: \<open>normalize_class\<close>
  gives the same result on a string and on its lowercased, stripped form, strings that
  differ only in case get the same result, and two keys of the table that differ only
  in case have the same target.
\<close>

theorem normalize_class_case_insensitive:
  "normalize_class s = normalize_class (py_strip (py_lower s))
   \<and> (py_lower s = py_lower s' \<longrightarrow> normalize_class s = normalize_class s')
   \<and> ((k1, t1) \<in> set CLASS_MAPPING \<and> (k2, t2) \<in> set CLASS_MAPPING
        \<and> py_lower k1 = py_lower k2 \<longrightarrow> t1 = t2)"
proof -
  have fixed: "py_lower k = k" if "(k, t) \<in> set CLASS_MAPPING" for k t
    using that table_keys_normal by (auto simp: list_all_iff)
  have "t1 = t2" if a: "(k1, t1) \<in> set CLASS_MAPPING" and b: "(k2, t2) \<in> set CLASS_MAPPING"
      and c: "py_lower k1 = py_lower k2"
  proof -
    have "k1 = py_lower k1" by (rule fixed [OF a, symmetric])
    also have "\<dots> = py_lower k2" by (rule c)
    also have "\<dots> = k2" by (rule fixed [OF b])
    finally have "k1 = k2" .
    with a b have "map_of CLASS_MAPPING k2 = Some t1" "map_of CLASS_MAPPING k2 = Some t2"
      by (simp_all add: map_of_eq_Some_iff [OF table_keys_distinct])
    then show ?thesis by simp
  qed
  then show ?thesis
    by (auto simp: normalize_class_def normalize_arg_idem)
qed

theorem normalize_class_case_insensitive_witness:
  "py_lower ''HeadSet'' = py_lower ''headset''
   \<and> normalize_class ''HeadSet'' = normalize_class ''headset''
   \<and> (''earbud'', ''headphones'') \<in> set CLASS_MAPPING
   \<and> (''earbud'', ''headphones'') \<in> set CLASS_MAPPING
   \<and> py_lower ''earbud'' = py_lower ''earbud''"
proof -
  have b: "py_lower ''HeadSet'' = py_lower ''headset''" by code_simp
  have c: "(''earbud'', ''headphones'') \<in> set CLASS_MAPPING" by code_simp
  from b c
    normalize_class_case_insensitive
      [of "''HeadSet''" "''headset''" "''earbud''" "''headphones''" "''earbud''" "''headphones''"]
  show ?thesis by blast
qed

section \<open>Fields, class indices and lines\<close>

subsection \<open>Fields of a line\<close>

lemma split_acc_fields:
  "\<forall>c \<in> set cur. \<not> isspace c \<Longrightarrow>
   \<forall>f \<in> set (split_acc cur s). f \<noteq> [] \<and> (\<forall>c \<in> set f. \<not> isspace c)"
proof (induction s arbitrary: cur)
  case Nil
  then show ?case by auto
next
  case (Cons a s)
  show ?case
  proof (cases "isspace a")
    case True
    with Cons.IH [of "[]"] Cons.prems show ?thesis by auto
  next
    case False
    with Cons.IH [of "cur @ [a]"] Cons.prems show ?thesis by auto
  qed
qed

lemma py_split_fields:
  "f \<in> set (py_split s) \<Longrightarrow> f \<noteq> [] \<and> (\<forall>c \<in> set f. \<not> isspace c)"
  unfolding py_split_def using split_acc_fields [of "[]" s] by simp

lemma split_acc_word:
  "\<forall>c \<in> set w. \<not> isspace c \<Longrightarrow> split_acc cur (w @ rest) = split_acc (cur @ w) rest"
  by (induction w arbitrary: cur) simp_all

lemma py_split_join:
  "\<forall>w \<in> set ws. w \<noteq> [] \<and> (\<forall>c \<in> set w. \<not> isspace c) \<Longrightarrow>
   py_split (py_join '' '' ws) = ws"
proof (induction "'' ''" ws rule: py_join.induct)
  case 1
  then show ?case by (simp add: py_split_def)
next
  case (2 x)
  then show ?case
    using split_acc_word [of x "[]" "[]"] by (simp add: py_split_def)
next
  case (3 x y ys)
  have sp: "isspace CHR '' ''" by (simp add: isspace_def)
  from 3 have "split_acc [] (x @ CHR '' '' # py_join '' '' (y # ys))
      = split_acc x (CHR '' '' # py_join '' '' (y # ys))"
    using split_acc_word [of x "[]"] by simp
  also from 3 sp have "\<dots> = x # py_split (py_join '' '' (y # ys))"
    by (simp add: py_split_def)
  finally show ?case
    using 3 by (simp add: py_split_def)
qed

lemma dec_field: "dec n \<noteq> [] \<and> (\<forall>c \<in> set (dec n). \<not> isspace c)"
proof (induction n rule: dec.induct)
  case (1 n)
  have d: "\<not> isspace (char_of (48 + k))" if "k < 10" for k :: nat
    using that by (auto simp: isspace_def Let_def)
  show ?case
  proof (cases "n < 10")
    case True
    then show ?thesis
      using d [of n] by (subst (1 2) dec.simps) simp
  next
    case False
    then show ?thesis
      using 1 d [of "n mod 10"] by (subst (1 2) dec.simps) auto
  qed
qed

lemma py_str_field: "0 \<le> k \<Longrightarrow> py_str k \<noteq> [] \<and> (\<forall>c \<in> set (py_str k). \<not> isspace c)"
  using dec_field [of "nat k"] by (simp add: py_str_def)

lemma py_split_rewritten:
  assumes "parts = py_split s" and "parts \<noteq> []" and "0 \<le> k"
  shows "py_split (py_join '' '' (parts[0 := py_str k])) = py_str k # tl parts"
proof -
  from assms(2) obtain p ps where parts: "parts = p # ps"
    by (cases parts) auto
  have "w \<in> set (py_split s)" if "w \<in> set ps" for w
    using that assms(1) parts by (metis list.set_intros(2))
  then have "\<forall>w \<in> set ps. w \<noteq> [] \<and> (\<forall>c \<in> set w. \<not> isspace c)"
    using py_split_fields [of _ s] by blast
  with py_str_field [OF assms(3)]
  have "py_split (py_join '' '' (py_str k # ps)) = py_str k # ps"
    by (intro py_split_join) auto
  then show ?thesis by (simp add: parts)
qed

subsection \<open>The range of normalize_class\<close>

lemma normalize_class_range:
  assumes "normalize_class s = Inr k"
  shows "k = - 1 \<and> map_of CLASS_MAPPING (py_strip (py_lower s)) = None
         \<or> 0 \<le> k \<and> k \<le> 3
           \<and> map_of CLASS_MAPPING (py_strip (py_lower s)) = Some (TARGET_CLASSES ! nat k)"
proof (cases "map_of CLASS_MAPPING (py_strip (py_lower s))")
  case None
  with assms show ?thesis by (simp add: normalize_class_map_of)
next
  case (Some t)
  from table_target_index [OF Some] obtain i
    where "i < 4" "list_index TARGET_CLASSES t = Inr i" "TARGET_CLASSES ! i = t"
    by blast
  with assms Some show ?thesis
    by (auto simp: normalize_class_map_of)
qed

subsection \<open>One line\<close>

lemma convert_line_short:
  "length (py_split (py_strip line)) < 5 \<Longrightarrow> convert_line sc line = Inr None"
  by (simp add: convert_line_def)

lemma convert_line_SomeD:
  assumes "convert_line sc line = Inr (Some out)"
  shows "\<exists>old n name k.
           5 \<le> length (py_split (py_strip line))
         \<and> py_int (py_split (py_strip line) ! 0) = Inr old
         \<and> py_len sc = Inr n \<and> old < int n
         \<and> py_getitem sc old = Inr (YStr name)
         \<and> normalize_class name = Inr k \<and> 0 \<le> k \<and> k \<le> 3
         \<and> map_of CLASS_MAPPING (py_strip (py_lower name)) = Some (TARGET_CLASSES ! nat k)
         \<and> out = py_join '' '' ((py_split (py_strip line))[0 := py_str k])
         \<and> py_split out = py_str k # tl (py_split (py_strip line))"
proof -
  define parts where "parts = py_split (py_strip line)"
  from assms have len: "5 \<le> length parts"
    by (auto simp: convert_line_def parts_def Let_def split: if_splits)
  from assms len obtain old where old: "py_int (parts ! 0) = Inr old"
    by (auto simp: convert_line_def parts_def Let_def split: if_splits sum.splits)
  from assms len old obtain n where n: "py_len sc = Inr n" "old < int n"
    by (auto simp: convert_line_def parts_def Let_def split: if_splits sum.splits)
  from assms len old n obtain v where v: "py_getitem sc old = Inr v"
    by (auto simp: convert_line_def parts_def Let_def split: if_splits sum.splits)
  from assms len old n v obtain k where k: "normalize_value v = Inr k" "0 \<le> k"
      and out: "out = py_join '' '' (parts[0 := py_str k])"
    by (auto simp: convert_line_def parts_def Let_def split: if_splits sum.splits)
  from k obtain name where name: "v = YStr name" "normalize_class name = Inr k"
    by (cases v) (auto simp: normalize_value_def)
  from normalize_class_range [OF name(2)] k(2)
  have rng: "k \<le> 3" "map_of CLASS_MAPPING (py_strip (py_lower name)) = Some (TARGET_CLASSES ! nat k)"
    by auto
  from len have "parts \<noteq> []" by auto
  from py_split_rewritten [OF parts_def this k(2)] out
  have "py_split out = py_str k # tl parts" by simp
  with len old n v name k rng out show ?thesis
    unfolding parts_def by blast
qed

lemma convert_line_unmapped:
  assumes "5 \<le> length (py_split (py_strip line))"
    and "py_int (py_split (py_strip line) ! 0) = Inr old"
    and "py_len sc = Inr n" and "old < int n"
    and "py_getitem sc old = Inr (YStr name)"
    and "normalize_class name = Inr (- 1)"
  shows "convert_line sc line = Inr None"
  using assms by (simp add: convert_line_def normalize_value_def Let_def)

lemma convert_line_out_of_range:
  assumes "py_int (py_split (py_strip line) ! 0) = Inr old"
    and "py_len sc = Inr n" and "int n \<le> old"
  shows "convert_line sc line = Inr None"
  using assms by (simp add: convert_line_def Let_def)

subsection \<open>All lines of a file\<close>

lemma convert_lines_origin:
  "convert_lines sc lines acc = Inr new_lines \<Longrightarrow> l \<in> set new_lines \<Longrightarrow>
   l \<in> set acc \<or> (\<exists>src \<in> set lines. convert_line sc src = Inr (Some l))"
proof (induction lines arbitrary: acc)
  case Nil
  then show ?case by simp
next
  case (Cons a lines)
  show ?case
  proof (cases "convert_line sc a")
    case (Inl e)
    with Cons.prems show ?thesis by simp
  next
    case (Inr r)
    show ?thesis
    proof (cases r)
      case None
      with Inr Cons.prems Cons.IH [of acc] show ?thesis by auto
    next
      case (Some x)
      with Inr Cons.prems Cons.IH [of "acc @ [x]"] show ?thesis by auto
    qed
  qed
qed

lemma convert_lines_filter:
  "convert_lines sc (filter (\<lambda>l. 5 \<le> length (py_split (py_strip l))) lines) acc
   = convert_lines sc lines acc"
proof (induction lines arbitrary: acc)
  case Nil
  then show ?case by simp
next
  case (Cons a lines)
  show ?case
  proof (cases "5 \<le> length (py_split (py_strip a))")
    case True
    then show ?thesis by (simp add: Cons.IH split: sum.splits option.splits)
  next
    case False
    then have "convert_line sc a = Inr None"
      by (simp add: convert_line_short)
    with False show ?thesis by (simp add: Cons.IH)
  qed
qed

section \<open>Lines of a label file\<close>

text \<open>
  Claim C5. A line with fewer than five whitespace-separated fields is never in the
  merged output: such a line is dropped without an error, the lines written for a
  label file are the same with and without the short lines of the source, and every
  line written has at least five fields and comes from a source line with at least
  five.
\<close>

theorem short_lines_never_written:
  "(length (py_split (py_strip line)) < 5 \<longrightarrow> convert_line sc line = Inr None)
   \<and> convert_lines sc (filter (\<lambda>l. 5 \<le> length (py_split (py_strip l))) lines) []
       = convert_lines sc lines []
   \<and> (convert_lines sc lines [] = Inr new_lines \<and> l \<in> set new_lines \<longrightarrow>
        5 \<le> length (py_split l)
        \<and> (\<exists>src \<in> set lines. 5 \<le> length (py_split (py_strip src))
              \<and> convert_line sc src = Inr (Some l)))"
proof -
  have "5 \<le> length (py_split l)
        \<and> (\<exists>src \<in> set lines. 5 \<le> length (py_split (py_strip src))
              \<and> convert_line sc src = Inr (Some l))"
    if "convert_lines sc lines [] = Inr new_lines" and "l \<in> set new_lines"
  proof -
    from convert_lines_origin [OF that] obtain src
      where src: "src \<in> set lines" "convert_line sc src = Inr (Some l)"
      by auto
    from convert_line_SomeD [OF src(2)] obtain k
      where "5 \<le> length (py_split (py_strip src))"
        and "py_split l = py_str k # tl (py_split (py_strip src))"
      by blast
    with src show ?thesis by auto
  qed
  then show ?thesis
    by (simp add: convert_line_short convert_lines_filter)
qed

theorem short_lines_never_written_witness:
  "length (py_split (py_strip ''0 0.5 0.5 0.2'')) < 5
   \<and> convert_line (YList [YStr ''phone'']) ''0 0.5 0.5 0.2'' = Inr None
   \<and> convert_lines (YList [YStr ''phone'']) [''0 0.5 0.5 0.2'', ''0 0.1 0.2 0.3 0.4''] []
       = Inr [''1 0.1 0.2 0.3 0.4'']
   \<and> ''1 0.1 0.2 0.3 0.4'' \<in> set [''1 0.1 0.2 0.3 0.4'']
   \<and> 5 \<le> length (py_split ''1 0.1 0.2 0.3 0.4'')"
proof -
  have a: "length (py_split (py_strip ''0 0.5 0.5 0.2'')) < 5" by code_simp
  have b: "convert_lines (YList [YStr ''phone'']) [''0 0.5 0.5 0.2'', ''0 0.1 0.2 0.3 0.4''] []
       = Inr [''1 0.1 0.2 0.3 0.4'']" by code_simp
  have c: "''1 0.1 0.2 0.3 0.4'' \<in> set [''1 0.1 0.2 0.3 0.4'']" by simp
  from a b c
    short_lines_never_written [of "''0 0.5 0.5 0.2''" "YList [YStr ''phone'']"
      "[''0 0.5 0.5 0.2'', ''0 0.1 0.2 0.3 0.4'']" "[''1 0.1 0.2 0.3 0.4'']"
      "''1 0.1 0.2 0.3 0.4''"]
  show ?thesis by blast
qed

text \<open>
  Claim C6, amended. Every line written to a merged label file comes from a source line
  whose class index, read in the list of source class names, gives a name that the
  synonym table maps to a canonical class; the first field of the written line is the
  index of that class, between 0 and 3, and the other fields are those of the source
  line. A line whose class name is a string with no entry in the table is dropped
  without an error.
\<close>

theorem written_lines_have_canonical_class:
  "(convert_lines sc lines [] = Inr new_lines \<and> l \<in> set new_lines \<longrightarrow>
      (\<exists>src \<in> set lines. \<exists>old n name k.
           5 \<le> length (py_split (py_strip src))
         \<and> py_int (py_split (py_strip src) ! 0) = Inr old
         \<and> py_len sc = Inr n \<and> old < int n
         \<and> py_getitem sc old = Inr (YStr name)
         \<and> map_of CLASS_MAPPING (py_strip (py_lower name)) = Some (TARGET_CLASSES ! nat k)
         \<and> normalize_class name = Inr k \<and> 0 \<le> k \<and> k \<le> 3
         \<and> l = py_join '' '' ((py_split (py_strip src))[0 := py_str k])
         \<and> py_split l = py_str k # tl (py_split (py_strip src))))
   \<and> (5 \<le> length (py_split (py_strip line))
        \<and> py_int (py_split (py_strip line) ! 0) = Inr old'
        \<and> py_len sc = Inr n' \<and> old' < int n'
        \<and> py_getitem sc old' = Inr (YStr name')
        \<and> map_of CLASS_MAPPING (py_strip (py_lower name')) = None
      \<longrightarrow> convert_line sc line = Inr None)"
proof -
  have kept: "\<exists>src \<in> set lines. \<exists>old n name k.
           5 \<le> length (py_split (py_strip src))
         \<and> py_int (py_split (py_strip src) ! 0) = Inr old
         \<and> py_len sc = Inr n \<and> old < int n
         \<and> py_getitem sc old = Inr (YStr name)
         \<and> map_of CLASS_MAPPING (py_strip (py_lower name)) = Some (TARGET_CLASSES ! nat k)
         \<and> normalize_class name = Inr k \<and> 0 \<le> k \<and> k \<le> 3
         \<and> l = py_join '' '' ((py_split (py_strip src))[0 := py_str k])
         \<and> py_split l = py_str k # tl (py_split (py_strip src))"
    if "convert_lines sc lines [] = Inr new_lines" and "l \<in> set new_lines"
  proof -
    from convert_lines_origin [OF that] obtain src
      where src: "src \<in> set lines" "convert_line sc src = Inr (Some l)"
      by auto
    from convert_line_SomeD [OF src(2)] src(1) show ?thesis
      by blast
  qed
  have dropped: "convert_line sc line = Inr None"
    if "5 \<le> length (py_split (py_strip line))"
      and "py_int (py_split (py_strip line) ! 0) = Inr old'"
      and "py_len sc = Inr n'" and "old' < int n'"
      and "py_getitem sc old' = Inr (YStr name')"
      and "map_of CLASS_MAPPING (py_strip (py_lower name')) = None"
  proof -
    from that(6) have "normalize_class name' = Inr (- 1)"
      by (simp add: normalize_class_map_of)
    with that(1-5) show ?thesis
      by (rule convert_line_unmapped)
  qed
  from kept dropped show ?thesis by blast
qed

theorem written_lines_have_canonical_class_witness:
  "convert_lines (YList [YStr ''Laptop'', YStr ''Ear Device''])
       [''0 0.1 0.2 0.3 0.4'', ''1 0.5 0.5 0.2 0.2''] [] = Inr [''3 0.5 0.5 0.2 0.2'']
   \<and> ''3 0.5 0.5 0.2 0.2'' \<in> set [''3 0.5 0.5 0.2 0.2'']
   \<and> 5 \<le> length (py_split (py_strip ''0 0.1 0.2 0.3 0.4''))
   \<and> py_int (py_split (py_strip ''0 0.1 0.2 0.3 0.4'') ! 0) = Inr 0
   \<and> py_len (YList [YStr ''Laptop'', YStr ''Ear Device'']) = Inr 2 \<and> (0::int) < int 2
   \<and> py_getitem (YList [YStr ''Laptop'', YStr ''Ear Device'']) 0 = Inr (YStr ''Laptop'')
   \<and> map_of CLASS_MAPPING (py_strip (py_lower ''Laptop'')) = None
   \<and> convert_line (YList [YStr ''Laptop'', YStr ''Ear Device'']) ''0 0.1 0.2 0.3 0.4'' = Inr None
   \<and> (\<exists>src \<in> set [''0 0.1 0.2 0.3 0.4'', ''1 0.5 0.5 0.2 0.2'']. \<exists>k.
         0 \<le> k \<and> k \<le> 3 \<and> py_split ''3 0.5 0.5 0.2 0.2'' = py_str k # tl (py_split (py_strip src)))"
proof -
  let ?sc = "YList [YStr ''Laptop'', YStr ''Ear Device'']"
  have a: "convert_lines ?sc [''0 0.1 0.2 0.3 0.4'', ''1 0.5 0.5 0.2 0.2''] []
      = Inr [''3 0.5 0.5 0.2 0.2'']" by code_simp
  have b: "''3 0.5 0.5 0.2 0.2'' \<in> set [''3 0.5 0.5 0.2 0.2'']" by simp
  have c: "5 \<le> length (py_split (py_strip ''0 0.1 0.2 0.3 0.4''))" by code_simp
  have d: "py_int (py_split (py_strip ''0 0.1 0.2 0.3 0.4'') ! 0) = Inr 0" by code_simp
  have e: "py_len ?sc = Inr 2" by code_simp
  have f: "(0::int) < int 2" by simp
  have g: "py_getitem ?sc 0 = Inr (YStr ''Laptop'')" by code_simp
  have h: "map_of CLASS_MAPPING (py_strip (py_lower ''Laptop'')) = None" by code_simp
  note inst = written_lines_have_canonical_class
      [of ?sc "[''0 0.1 0.2 0.3 0.4'', ''1 0.5 0.5 0.2 0.2'']" "[''3 0.5 0.5 0.2 0.2'']"
          "''3 0.5 0.5 0.2 0.2''" "''0 0.1 0.2 0.3 0.4''" 0 2 "''Laptop''"]
  from inst a b have kept: "\<exists>src \<in> set [''0 0.1 0.2 0.3 0.4'', ''1 0.5 0.5 0.2 0.2'']. \<exists>k.
         0 \<le> k \<and> k \<le> 3 \<and> py_split ''3 0.5 0.5 0.2 0.2'' = py_str k # tl (py_split (py_strip src))"
    by blast
  from inst c d e f g h have "convert_line ?sc ''0 0.1 0.2 0.3 0.4'' = Inr None"
    by blast
  with a b c d e f g h kept show ?thesis by blast
qed

text \<open>
  The claim C6 as it was stated fails: a class that the metadata file gives as a number
  has no entry in the table, and its line is not dropped without an error, since
  \<open>normalize_class\<close> calls \<open>lower\<close> on the number and raises.
\<close>

theorem unmapped_class_raises_counterexample:
  "5 \<le> length (py_split (py_strip ''0 0.5 0.5 0.2 0.2''))
   \<and> py_int (py_split (py_strip ''0 0.5 0.5 0.2 0.2'') ! 0) = Inr 0
   \<and> py_len (YList [YInt 0, YInt 1]) = Inr 2
   \<and> py_getitem (YList [YInt 0, YInt 1]) 0 = Inr (YInt 0)
   \<and> convert_line (YList [YInt 0, YInt 1]) ''0 0.5 0.5 0.2 0.2'' = Inl AttributeError
   \<and> convert_line (YList [YInt 0, YInt 1]) ''0 0.5 0.5 0.2 0.2'' \<noteq> Inr None
   \<and> fst (convert_labels numeric_load [''raw'', ''phone_1''] [''merged''] ''train'' numeric_fs)
       = Inl AttributeError"
  by code_simp

section \<open>A class index below zero\<close>

text \<open>
  Claim C2. An annotation whose class index is not a position of the list of class
  names should never reach the merged output. The test \<open>old_class_id < len(source_classes)\<close>
  has no lower bound: the index \<open>-1\<close> passes it, \<open>source_classes[-1]\<close> is the last
  name, and the line is written with that class.
\<close>

theorem negative_class_index_is_written:
  "py_int (py_split (py_strip ''-1 0.5 0.5 0.2 0.2'') ! 0) = Inr (- 1)
   \<and> py_len (YList [YStr ''mobile'']) = Inr 1
   \<and> convert_line (YList [YStr ''mobile'']) ''-1 0.5 0.5 0.2 0.2''
       = Inr (Some ''1 0.5 0.5 0.2 0.2'')
   \<and> fst (convert_labels demo_load [''raw'', ''phone_1''] [''merged''] ''train'' negative_fs)
       = Inr 1
   \<and> lookup
         (fst (snd (convert_labels demo_load [''raw'', ''phone_1''] [''merged''] ''train''
                      negative_fs)))
         [''merged'', ''train'', ''labels'', ''phone_1_a.txt'']
       = Some (File ''1 0.5 0.5 0.2 0.2'')"
  by code_simp

section \<open>Writes stay below the output directory\<close>

subsection \<open>Paths in the tree\<close>

lemma isdir_Nil: "isdir n [] = (\<exists>es. n = Dir es)"
  by (cases n) (simp_all add: isdir_def)

lemma isdir_Cons:
  "isdir n (x # p) = (\<exists>es c. n = Dir es \<and> map_of es x = Some c \<and> isdir c p)"
  by (cases n) (auto simp: isdir_def split: option.splits)

lemma makedirs_is_Dir: "makedirs p n = Inr n' \<Longrightarrow> \<exists>es. n' = Dir es"
  by (cases p; cases n) (auto split: sum.splits)

lemma remove_absent: "lookup fs p = None \<Longrightarrow> remove p fs = fs"
proof (induction p fs rule: remove.induct)
  case (3 x es)
  then have "x \<notin> fst ` set es"
    by (auto simp: map_of_eq_None_iff split: option.splits)
  then show ?case by simp
next
  case (4 x y ys es)
  then show ?case
    by (auto simp: update_triv split: option.splits)
qed simp_all

lemma lookup_remove: "p \<noteq> [] \<Longrightarrow> lookup (remove p fs) p = None"
proof (induction p fs rule: remove.induct)
  case (3 x es)
  then show ?case by (simp add: delete_conv')
next
  case (4 x y ys es)
  then show ?case
    by (auto simp: update_conv' split: option.splits)
qed simp_all

lemma remove_idem: "p \<noteq> [] \<Longrightarrow> remove p (remove p fs) = remove p fs"
  by (simp add: remove_absent lookup_remove)

lemma isdir_remove_parent:
  "p \<noteq> [] \<Longrightarrow> isdir (remove p fs) (butlast p) = isdir fs (butlast p)"
proof (induction p fs rule: remove.induct)
  case (3 x es)
  then show ?case by (simp add: isdir_Nil)
next
  case (4 x y ys es)
  then show ?case
    by (auto simp: isdir_Cons update_conv' split: option.splits)
next
  case (2 x xs c)
  then show ?case by (cases xs) (simp_all add: isdir_Nil isdir_Cons)
qed simp

subsection \<open>The primitive operations write below their path only\<close>

lemma remove_makedirs:
  "makedirs (out @ q) fs = Inr fs' \<Longrightarrow> out \<noteq> [] \<Longrightarrow> isdir fs (butlast out) \<Longrightarrow>
   remove out fs' = remove out fs"
proof (induction out arbitrary: fs fs')
  case Nil
  then show ?case by simp
next
  case (Cons x xs)
  from Cons.prems(3) obtain es where fs: "fs = Dir es"
    by (cases fs; cases xs) (auto simp: isdir_def)
  define c0 where "c0 = (case map_of es x of None \<Rightarrow> Dir [] | Some n \<Rightarrow> n)"
  from Cons.prems(1) fs obtain n' where n': "makedirs (xs @ q) c0 = Inr n'"
      and fs': "fs' = Dir (AList.update x n' es)"
    by (auto simp: c0_def split: sum.splits)
  show ?case
  proof (cases xs)
    case Nil
    then show ?thesis by (simp add: fs fs' delete_update_same)
  next
    case (Cons y ys)
    with Cons.prems(3) fs obtain c where c: "map_of es x = Some c" "isdir c (butlast xs)"
      by (auto simp: isdir_Cons)
    then have "c0 = c" by (simp add: c0_def)
    with Cons.IH [of c n'] n' c Cons have "remove xs n' = remove xs c" by simp
    with c show ?thesis
      by (simp add: fs fs' Cons update_conv')
  qed
qed

lemma remove_write_file:
  "write_file (out @ q) content fs = Inr fs' \<Longrightarrow> out \<noteq> [] \<Longrightarrow>
   remove out fs' = remove out fs"
proof (induction out arbitrary: fs fs')
  case Nil
  then show ?case by simp
next
  case (Cons x xs)
  from Cons.prems(1) obtain es where fs: "fs = Dir es"
    by (cases fs) auto
  show ?case
  proof (cases xs)
    case Nil
    from Cons.prems(1) obtain n' where "fs' = Dir (AList.update x n' es)"
      by (cases q) (auto simp: fs Nil split: option.splits node.splits sum.splits)
    then show ?thesis by (simp add: fs Nil delete_update_same)
  next
    case (Cons y ys)
    with Cons.prems(1) fs obtain c n' where c: "map_of es x = Some c"
        and n': "write_file (xs @ q) content c = Inr n'"
        and fs': "fs' = Dir (AList.update x n' es)"
      by (auto split: option.splits sum.splits)
    with Cons.IH [of c n'] Cons have "remove xs n' = remove xs c" by simp
    with c show ?thesis
      by (simp add: fs fs' Cons update_conv')
  qed
qed

lemma isdir_makedirs: "makedirs (p @ q) fs = Inr fs' \<Longrightarrow> isdir fs' p"
proof (induction p arbitrary: fs fs')
  case Nil
  then show ?case
    using makedirs_is_Dir [of q fs fs'] by (auto simp: isdir_Nil)
next
  case (Cons x xs)
  then show ?case
    by (cases fs) (auto simp: isdir_Cons update_conv' split: sum.splits)
qed

lemma isdir_write_file:
  "write_file (p @ q) content fs = Inr fs' \<Longrightarrow> q \<noteq> [] \<Longrightarrow> isdir fs' p"
proof (induction p arbitrary: fs fs')
  case Nil
  then show ?case
    by (cases "(q, content, fs)" rule: write_file.cases)
       (auto simp: isdir_Nil split: option.splits node.splits sum.splits)
next
  case (Cons x xs)
  from Cons.prems(1) obtain es where fs: "fs = Dir es"
    by (cases fs) auto
  from Cons.prems(2) obtain z zs where "xs @ q = z # zs"
    by (cases "xs @ q") auto
  with Cons.prems fs obtain c n' where "map_of es x = Some c"
      "write_file (xs @ q) content c = Inr n'" "fs' = Dir (AList.update x n' es)"
    by (auto split: option.splits sum.splits)
  with Cons.IH [of c n'] Cons.prems(2) show ?case
    by (simp add: isdir_Cons update_conv')
qed

subsection \<open>The relation between the file systems before and after\<close>

lemma confined_refl: "confined p fs fs"
  by (simp add: confined_def)

lemma confined_trans: "confined p a b \<Longrightarrow> confined p b c \<Longrightarrow> confined p a c"
  by (auto simp: confined_def)

lemma confined_parent:
  "confined p fs fs' \<Longrightarrow> p \<noteq> [] \<Longrightarrow> isdir fs (butlast p) \<Longrightarrow> isdir fs' (butlast p)"
  using isdir_remove_parent [of p fs] isdir_remove_parent [of p fs']
  by (simp add: confined_def)

lemma confined_makedirs:
  "makedirs (out @ q) fs = Inr fs' \<Longrightarrow> out \<noteq> [] \<Longrightarrow> isdir fs (butlast out) \<Longrightarrow>
   confined out fs fs'"
  by (simp add: confined_def remove_makedirs isdir_makedirs)

lemma confined_write_file:
  "write_file (out @ q) content fs = Inr fs' \<Longrightarrow> out \<noteq> [] \<Longrightarrow> q \<noteq> [] \<Longrightarrow>
   confined out fs fs'"
  by (simp add: confined_def remove_write_file isdir_write_file)

lemma confined_shutil_copy:
  assumes "shutil_copy src (out @ q) fs = Inr fs'" and "out \<noteq> []" and "q \<noteq> []"
  shows "confined out fs fs'"
proof -
  from assms(1) obtain content q' where "q' \<noteq> []"
      "write_file (out @ q') content fs = Inr fs'"
    using assms(3)
    by (cases "isdir fs (out @ q)")
       (auto simp: shutil_copy_def Let_def split: if_splits sum.splits
             intro: that [of "q @ [path_name src]"] that [of q])
  with assms(2) show ?thesis
    by (rule_tac confined_write_file)
qed

subsection \<open>convert_labels and the merge write below the output directory only\<close>

lemma confined_convert_image:
  assumes "convert_image sc ds out split sn img count fs = (r, fs')" and "out \<noteq> []"
  shows "confined out fs fs'"
proof (cases "has_image_ext img")
  case False
  with assms(1) show ?thesis
    by (simp add: convert_image_def confined_refl)
next
  case True
  show ?thesis
  proof (cases "shutil_copy (ds @ [sn, ''images'', img])
                  (out @ [split, ''images'', path_name ds @ ''_'' @ img]) fs")
    case (Inl e)
    with assms(1) True show ?thesis
      by (simp add: convert_image_def confined_refl)
  next
    case (Inr fs1)
    from confined_shutil_copy [OF Inr assms(2)] have c1: "confined out fs fs1"
      by simp
    have "fs' = fs1 \<or> (\<exists>content.
        write_file (out @ [split, ''labels'',
          path_name ds @ ''_'' @ splitext_root img @ ''.txt'']) content fs1 = Inr fs')"
      using assms(1) True Inr
      by (auto simp: convert_image_def Let_def split: if_splits sum.splits)
    then have "confined out fs1 fs'"
      using confined_write_file [OF _ assms(2), of _ _ fs1 fs'] confined_refl
      by blast
    with c1 show ?thesis by (rule confined_trans)
  qed
qed

lemma confined_convert_images:
  "convert_images sc ds out split sn imgs count fs = (r, fs') \<Longrightarrow> out \<noteq> [] \<Longrightarrow>
   confined out fs fs'"
proof (induction imgs arbitrary: count fs)
  case Nil
  then show ?case by (simp add: confined_refl)
next
  case (Cons img imgs)
  obtain r1 fs1 where step: "convert_image sc ds out split sn img count fs = (r1, fs1)"
    by (cases "convert_image sc ds out split sn img count fs")
  from confined_convert_image [OF step Cons.prems(2)] have c1: "confined out fs fs1" .
  show ?case
  proof (cases r1)
    case (Inl e)
    with Cons.prems(1) step c1 show ?thesis by simp
  next
    case (Inr count')
    with Cons.prems step have "convert_images sc ds out split sn imgs count' fs1 = (r, fs')"
      by simp
    from Cons.IH [OF this Cons.prems(2)] c1 show ?thesis
      by (rule confined_trans [rotated])
  qed
qed

lemma confined_convert_splits:
  "convert_splits sc ds out split sns count fs = (r, fs') \<Longrightarrow> out \<noteq> [] \<Longrightarrow>
   confined out fs fs'"
proof (induction sns arbitrary: count fs)
  case Nil
  then show ?case by (simp add: confined_refl)
next
  case (Cons sn sns)
  show ?case
  proof (cases "path_exists fs (ds @ [sn, ''images''])")
    case False
    with Cons.prems(1) have "convert_splits sc ds out split sns count fs = (r, fs')"
      by simp
    from Cons.IH [OF this Cons.prems(2)] show ?thesis .
  next
    case True
    show ?thesis
    proof (cases "listdir fs (ds @ [sn, ''images''])")
      case (Inl e)
      with Cons.prems(1) True show ?thesis by (simp add: confined_refl)
    next
      case (Inr imgs)
      obtain r1 fs1 where step: "convert_images sc ds out split sn imgs count fs = (r1, fs1)"
        by (cases "convert_images sc ds out split sn imgs count fs")
      from confined_convert_images [OF step Cons.prems(2)] have c1: "confined out fs fs1" .
      show ?thesis
      proof (cases r1)
        case (Inl e)
        with Cons.prems(1) True Inr step c1 show ?thesis by simp
      next
        case (Inr count')
        with Cons.prems(1) True \<open>listdir fs (ds @ [sn, ''images'']) = Inr imgs\<close> step
        have "convert_splits sc ds out split sns count' fs1 = (r, fs')"
          by simp
        from Cons.IH [OF this Cons.prems(2)] c1 show ?thesis
          by (rule confined_trans [rotated])
      qed
    qed
  qed
qed

lemma convert_labels_shape:
  assumes "convert_labels sl ds out split fs = (r, fs', ev)"
    and "makedirs (out @ [split, ''images'']) fs = Inr fs1"
    and "makedirs (out @ [split, ''labels'']) fs1 = Inr fs2"
  shows "fs' = fs2 \<or> (\<exists>sc. convert_splits sc ds out split
             [''train'', ''valid'', ''test''] 0 fs2 = (r, fs'))"
proof (cases "find_data_yaml fs2 ds")
  case None
  with assms show ?thesis by (simp add: convert_labels_def)
next
  case (Some dy)
  show ?thesis
  proof (cases "read_file fs2 dy")
    case (Inl e)
    with assms Some show ?thesis by (simp add: convert_labels_def)
  next
    case yml: (Inr yml)
    show ?thesis
    proof (cases "sl yml")
      case (Inl e)
      with assms Some yml show ?thesis by (simp add: convert_labels_def)
    next
      case config: (Inr config)
      show ?thesis
      proof (cases "config_names config")
        case (Inl e)
        with assms Some yml config show ?thesis by (simp add: convert_labels_def)
      next
        case (Inr names)
        with assms Some yml config show ?thesis
          by (auto simp: convert_labels_def Let_def split: prod.splits)
      qed
    qed
  qed
qed

lemma confined_convert_labels:
  assumes "convert_labels sl ds out split fs = (r, fs', ev)"
    and "out \<noteq> []" and "isdir fs (butlast out)"
  shows "confined out fs fs'"
proof (cases "makedirs (out @ [split, ''images'']) fs")
  case (Inl e)
  with assms(1) show ?thesis
    by (simp add: convert_labels_def confined_refl)
next
  case (Inr fs1)
  from confined_makedirs [OF Inr assms(2,3)] have c1: "confined out fs fs1" .
  from confined_parent [OF c1 assms(2,3)] have p1: "isdir fs1 (butlast out)" .
  show ?thesis
  proof (cases "makedirs (out @ [split, ''labels'']) fs1")
    case (Inl e)
    with assms(1) Inr c1 show ?thesis
      by (simp add: convert_labels_def)
  next
    case (Inr fs2)
    from confined_makedirs [OF Inr assms(2) p1] c1 have c2: "confined out fs fs2"
      by (rule confined_trans [rotated])
    have "fs' = fs2 \<or> (\<exists>sc. convert_splits sc ds out split
             [''train'', ''valid'', ''test''] 0 fs2 = (r, fs'))"
      using assms(1) \<open>makedirs (out @ [split, ''images'']) fs = Inr fs1\<close> Inr
      by (rule convert_labels_shape)
    then have "confined out fs2 fs'"
      using confined_convert_splits [OF _ assms(2)] confined_refl by blast
    with c2 show ?thesis by (rule confined_trans)
  qed
qed

lemma confined_prepare_loop:
  "prepare_loop sl raw out datasets tt tv fs = (r, fs', ev) \<Longrightarrow> out \<noteq> [] \<Longrightarrow>
   isdir fs (butlast out) \<Longrightarrow> confined out fs fs'"
proof (induction datasets arbitrary: tt tv fs r fs' ev)
  case Nil
  then show ?case by (simp add: confined_refl)
next
  case (Cons d datasets)
  obtain name url where d: "d = (name, url)" by (cases d)
  show ?case
  proof (cases "path_exists fs (raw @ [name])")
    case False
    with Cons.prems(1) d have "prepare_loop sl raw out datasets tt tv fs = (r, fs', ev)"
      by simp
    from Cons.IH [OF this Cons.prems(2,3)] show ?thesis .
  next
    case True
    obtain r1 fs1 ev1 where t: "convert_labels sl (raw @ [name]) out ''train'' fs = (r1, fs1, ev1)"
      by (cases "convert_labels sl (raw @ [name]) out ''train'' fs")
    from confined_convert_labels [OF t Cons.prems(2,3)] have c1: "confined out fs fs1" .
    from confined_parent [OF c1 Cons.prems(2,3)] have p1: "isdir fs1 (butlast out)" .
    show ?thesis
    proof (cases r1)
      case (Inl e)
      with Cons.prems(1) d True t c1 show ?thesis by simp
    next
      case train: (Inr tc)
      obtain r2 fs2 ev2 where v: "convert_labels sl (raw @ [name]) out ''valid'' fs1 = (r2, fs2, ev2)"
        by (cases "convert_labels sl (raw @ [name]) out ''valid'' fs1")
      from confined_convert_labels [OF v Cons.prems(2) p1] c1 have c2: "confined out fs fs2"
        by (rule confined_trans [rotated])
      from confined_parent [OF c2 Cons.prems(2,3)] have p2: "isdir fs2 (butlast out)" .
      show ?thesis
      proof (cases r2)
        case (Inl e)
        with Cons.prems(1) d True t train v c2 show ?thesis by simp
      next
        case (Inr vc)
        obtain r3 ev3 where "prepare_loop sl raw out datasets (tt + tc) (tv + vc) fs2 = (r3, fs', ev3)"
          using Cons.prems(1) d True t train v Inr
          by (auto split: prod.splits)
        from Cons.IH [OF this Cons.prems(2) p2] c2 show ?thesis
          by (rule confined_trans [rotated])
      qed
    qed
  qed
qed

lemma confined_build_merged:
  assumes "build_merged sl dump raw out fs = (r, fs', ev)"
    and "out \<noteq> []" and "isdir fs (butlast out)"
  shows "confined out fs fs'"
proof -
  obtain r1 fs1 ev1 where l: "prepare_loop sl raw out ROBOFLOW_DATASETS 0 0 fs = (r1, fs1, ev1)"
    by (cases "prepare_loop sl raw out ROBOFLOW_DATASETS 0 0 fs")
  from confined_prepare_loop [OF l assms(2,3)] have c1: "confined out fs fs1" .
  have "fs' = fs1 \<or> (\<exists>content. write_file (out @ [''data.yaml'']) content fs1 = Inr fs')"
    using assms(1) l
    by (auto simp: build_merged_def split: sum.splits prod.splits)
  then have "confined out fs1 fs'"
    using confined_write_file [OF _ assms(2), of "[''data.yaml'']" _ fs1 fs'] confined_refl
    by blast
  with c1 show ?thesis by (rule confined_trans)
qed

subsection \<open>Clearing the output directory\<close>

lemma clear_output_file:
  "isfile fs out \<Longrightarrow> clear_output out fs = (Inl NotADirectoryError, fs)"
  by (auto simp: clear_output_def isfile_def path_exists_def rmtree_def
           split: option.splits node.splits)

lemma clear_output_remove:
  "\<not> isfile fs out \<Longrightarrow> out \<noteq> [] \<Longrightarrow> clear_output out fs = (Inr (), remove out fs)"
  by (auto simp: clear_output_def isfile_def path_exists_def rmtree_def remove_absent
           split: option.splits node.splits)

lemma prepare_dataset_cleared:
  "\<not> isfile fs out \<Longrightarrow> out \<noteq> [] \<Longrightarrow>
   prepare_dataset sl dump raw out fs =
     (case build_merged sl dump raw out (remove out fs) of
        (r, fs1, ev) \<Rightarrow> (r, fs1, Print Preparing # ev))"
  by (simp add: prepare_dataset_def clear_output_remove)

lemma confined_not_file:
  assumes "confined out fs0 fs1" and "lookup fs0 out = None"
  shows "\<not> isfile fs1 out"
  using assms by (auto simp: confined_def isfile_def isdir_def split: option.splits node.splits)

subsection \<open>The synthetic dataset, merged\<close>

lemma demo_run:
  "prepare_dataset demo_load demo_dump [''raw''] [''merged''] demo_fs
   = (Inr [''merged'', ''data.yaml''], demo_merged, demo_events)"
  by code_simp

section \<open>Re-running the merge\<close>

text \<open>
  Claim C7. Re-running \<open>prepare_dataset\<close> replaces the previous merge output: a
  directory at the output path is deleted before anything is rebuilt, the result and
  the end state do not depend on what was below the output path, and running the merge
  on the state it left gives the same result and leaves that state. The output path is
  not the root and the directory it lies in exists.
\<close>

theorem prepare_dataset_replaces_output:
  assumes "output_dir \<noteq> []" and "isdir fs (butlast output_dir)"
    and "prepare_dataset safe_load dump raw_dir output_dir fs = (r, fs1, ev)"
  shows "prepare_dataset safe_load dump raw_dir output_dir fs1 = (r, fs1, ev)
       \<and> (\<forall>fs'. remove output_dir fs' = remove output_dir fs
               \<and> \<not> isfile fs output_dir \<and> \<not> isfile fs' output_dir
             \<longrightarrow> prepare_dataset safe_load dump raw_dir output_dir fs' = (r, fs1, ev))
       \<and> (isdir fs output_dir
             \<longrightarrow> (\<exists>fs0. clear_output output_dir fs = (Inr (), fs0)
                        \<and> \<not> path_exists fs0 output_dir))"
proof (cases "isfile fs output_dir")
  case True
  then have "\<not> isdir fs output_dir"
    by (auto simp: isfile_def isdir_def split: option.splits node.splits)
  moreover from True assms(3) have "fs1 = fs" "r = Inl NotADirectoryError" "ev = [Print Preparing]"
    by (simp_all add: prepare_dataset_def clear_output_file)
  ultimately show ?thesis
    using True assms(3) by simp
next
  case False
  define fs0 where "fs0 = remove output_dir fs"
  have absent: "lookup fs0 output_dir = None"
    unfolding fs0_def by (rule lookup_remove [OF assms(1)])
  have parent: "isdir fs0 (butlast output_dir)"
    unfolding fs0_def using assms(1,2) by (simp add: isdir_remove_parent)
  obtain r0 ev0 where build: "build_merged safe_load dump raw_dir output_dir fs0 = (r0, fs1, ev0)"
      and r: "r = r0" and ev: "ev = Print Preparing # ev0"
    using assms(3) False assms(1)
    by (auto simp: prepare_dataset_cleared fs0_def split: prod.splits)
  from confined_build_merged [OF build assms(1) parent] have conf: "confined output_dir fs0 fs1" .
  then have "remove output_dir fs1 = remove output_dir fs0"
    by (simp add: confined_def)
  also have "\<dots> = fs0"
    using absent by (rule remove_absent)
  finally have restored: "remove output_dir fs1 = fs0" .
  have same: "prepare_dataset safe_load dump raw_dir output_dir fs' = (r, fs1, ev)"
    if "remove output_dir fs' = fs0" and "\<not> isfile fs' output_dir" for fs'
    using that build r ev assms(1) by (simp add: prepare_dataset_cleared)
  have again: "prepare_dataset safe_load dump raw_dir output_dir fs1 = (r, fs1, ev)"
    using restored confined_not_file [OF conf absent] by (rule same)
  have cleared: "clear_output output_dir fs = (Inr (), fs0) \<and> \<not> path_exists fs0 output_dir"
    using False assms(1) absent by (simp add: clear_output_remove fs0_def path_exists_def)
  from again same cleared show ?thesis
    by (auto simp: fs0_def)
qed

theorem prepare_dataset_replaces_output_witness:
  "[''merged''] \<noteq> [] \<and> isdir demo_fs (butlast [''merged''])
   \<and> prepare_dataset demo_load demo_dump [''raw''] [''merged''] demo_fs
       = (Inr [''merged'', ''data.yaml''], demo_merged, demo_events)
   \<and> prepare_dataset demo_load demo_dump [''raw''] [''merged''] demo_merged
       = (Inr [''merged'', ''data.yaml''], demo_merged, demo_events)"
proof -
  have a: "[''merged''] \<noteq> ([] :: path)" by simp
  have b: "isdir demo_fs (butlast [''merged''])" by code_simp
  from prepare_dataset_replaces_output [OF a b demo_run] a b demo_run
  show ?thesis by blast
qed

section \<open>A dataset without a metadata file\<close>

subsection \<open>Creating directories adds no file\<close>

lemma lookup_file_makedirs:
  "makedirs p fs = Inr fs' \<Longrightarrow>
   (lookup fs' q = Some (File c)) = (lookup fs q = Some (File c))"
proof (induction p arbitrary: fs fs' q)
  case Nil
  then show ?case by (cases fs) auto
next
  case (Cons x xs)
  from Cons.prems obtain es where fs: "fs = Dir es"
    by (cases fs) auto
  define c0 where "c0 = (case map_of es x of None \<Rightarrow> Dir [] | Some n \<Rightarrow> n)"
  from Cons.prems fs obtain n' where n': "makedirs xs c0 = Inr n'"
      and fs': "fs' = Dir (AList.update x n' es)"
    by (auto simp: c0_def split: sum.splits)
  from makedirs_is_Dir [OF n'] obtain es' where es': "n' = Dir es'" by blast
  show ?case
  proof (cases q)
    case Nil
    then show ?thesis by (simp add: fs fs')
  next
    case (Cons y ys)
    show ?thesis
    proof (cases "y = x")
      case False
      then show ?thesis by (simp add: fs fs' Cons update_conv')
    next
      case True
      have "(lookup n' ys = Some (File c)) = (lookup c0 ys = Some (File c))"
        by (rule Cons.IH [OF n'])
      moreover have "lookup c0 ys \<noteq> Some (File c)" if "map_of es x = None"
        using that by (cases ys) (simp_all add: c0_def)
      ultimately show ?thesis
        by (auto simp: fs fs' Cons True update_conv' c0_def split: option.splits)
    qed
  qed
qed

subsection \<open>Creating directories does not change what the scan finds\<close>

lemma walk_find_in_update:
  assumes "walk_find (root @ [x]) n'
           = walk_find (root @ [x]) (case map_of es x of None \<Rightarrow> Dir [] | Some n \<Rightarrow> n)"
  shows "walk_find_in root (AList.update x n' es) = walk_find_in root es"
  using assms
proof (induction es)
  case Nil
  then show ?case by (simp add: has_file_def)
next
  case (Cons e es)
  obtain k v where e: "e = (k, v)" by (cases e)
  show ?case
  proof (cases "k = x")
    case True
    with Cons.prems e show ?thesis by simp
  next
    case False
    with Cons.prems e have "walk_find_in root (AList.update x n' es) = walk_find_in root es"
      by (intro Cons.IH) simp
    with False e show ?thesis by (simp split: option.splits)
  qed
qed

lemma has_file_makedirs:
  assumes "makedirs xs (case map_of es x of None \<Rightarrow> Dir [] | Some n \<Rightarrow> n) = Inr n'"
  shows "has_file (AList.update x n' es) name = has_file es name"
proof (cases "name = x")
  case False
  then show ?thesis by (simp add: has_file_def update_conv')
next
  case True
  from makedirs_is_Dir [OF assms] obtain es' where "n' = Dir es'" by blast
  moreover have "map_of es x \<noteq> Some (File c)" for c
    using assms by (cases xs) (auto split: option.splits)
  ultimately show ?thesis
    by (auto simp: has_file_def update_conv' True split: option.splits node.splits)
qed

lemma walk_find_makedirs:
  "makedirs p n = Inr n' \<Longrightarrow> walk_find root n' = walk_find root n"
proof (induction p arbitrary: n n' root)
  case Nil
  then show ?case by (cases n) auto
next
  case (Cons x xs)
  from Cons.prems obtain es where n: "n = Dir es"
    by (cases n) auto
  define c0 where "c0 = (case map_of es x of None \<Rightarrow> Dir [] | Some n \<Rightarrow> n)"
  from Cons.prems n obtain c' where c': "makedirs xs c0 = Inr c'"
      and n': "n' = Dir (AList.update x c' es)"
    by (auto simp: c0_def split: sum.splits)
  have "walk_find (root @ [x]) c' = walk_find (root @ [x]) c0"
    by (rule Cons.IH [OF c'])
  then have "walk_find_in root (AList.update x c' es) = walk_find_in root es"
    unfolding c0_def by (rule walk_find_in_update)
  moreover have "has_file (AList.update x c' es) ''data.yaml'' = has_file es ''data.yaml''"
    using c' unfolding c0_def by (rule has_file_makedirs)
  ultimately show ?case by (simp add: n n')
qed

lemma walk_find_lookup_makedirs:
  "makedirs p fs = Inr fs' \<Longrightarrow>
   (case lookup fs' ds of None \<Rightarrow> None | Some n \<Rightarrow> walk_find root n)
   = (case lookup fs ds of None \<Rightarrow> None | Some n \<Rightarrow> walk_find root n)"
proof (induction ds arbitrary: p fs fs')
  case Nil
  then show ?case by (simp add: walk_find_makedirs)
next
  case (Cons d ds)
  show ?case
  proof (cases p)
    case Nil
    with Cons.prems show ?thesis by (cases fs) auto
  next
    case p: (Cons x xs)
    from Cons.prems p obtain es where fs: "fs = Dir es"
      by (cases fs) auto
    define c0 where "c0 = (case map_of es x of None \<Rightarrow> Dir [] | Some n \<Rightarrow> n)"
    from Cons.prems fs p obtain c' where c': "makedirs xs c0 = Inr c'"
        and fs': "fs' = Dir (AList.update x c' es)"
      by (auto simp: c0_def split: sum.splits)
    show ?thesis
    proof (cases "d = x")
      case False
      then show ?thesis by (simp add: fs fs' update_conv')
    next
      case True
      have ih: "(case lookup c' ds of None \<Rightarrow> None | Some n \<Rightarrow> walk_find root n)
          = (case lookup c0 ds of None \<Rightarrow> None | Some n \<Rightarrow> walk_find root n)"
        by (rule Cons.IH [OF c'])
      have "(case lookup c0 ds of None \<Rightarrow> None | Some n \<Rightarrow> walk_find root n) = None"
        if "map_of es x = None"
        using that by (cases ds) (simp_all add: c0_def has_file_def)
      with ih show ?thesis
        by (auto simp: fs fs' True update_conv' c0_def split: option.splits)
    qed
  qed
qed

lemma find_data_yaml_makedirs:
  "makedirs p fs = Inr fs' \<Longrightarrow> find_data_yaml fs' ds = find_data_yaml fs ds"
  using walk_find_lookup_makedirs [of p fs fs' ds ds]
  by (simp add: find_data_yaml_def)

subsection \<open>convert_labels on such a dataset\<close>

text \<open>
  Claim C9. When the scan of the dataset directory finds no \<open>data.yaml\<close>,
  \<open>convert_labels\<close> prints its message and returns 0; the file system it leaves is the
  one with the two output directories created, and it holds exactly the files that
  were there before. The two output directories can be created.
\<close>

theorem convert_labels_without_metadata:
  assumes "find_data_yaml fs dataset_dir = None"
    and "makedirs (output_dir @ [split, ''images'']) fs = Inr fs1"
    and "makedirs (output_dir @ [split, ''labels'']) fs1 = Inr fs2"
  shows "convert_labels safe_load dataset_dir output_dir split fs
           = (Inr 0, fs2, [Print (NoDataYaml dataset_dir)])
       \<and> (\<forall>p c. (lookup fs2 p = Some (File c)) = (lookup fs p = Some (File c)))"
proof -
  have "find_data_yaml fs2 dataset_dir = None"
    using assms by (simp add: find_data_yaml_makedirs)
  with assms(2,3) have "convert_labels safe_load dataset_dir output_dir split fs
           = (Inr 0, fs2, [Print (NoDataYaml dataset_dir)])"
    by (simp add: convert_labels_def)
  moreover have "(lookup fs2 p = Some (File c)) = (lookup fs p = Some (File c))" for p c
    using lookup_file_makedirs [OF assms(2)] lookup_file_makedirs [OF assms(3)] by simp
  ultimately show ?thesis by blast
qed

theorem convert_labels_without_metadata_witness:
  "find_data_yaml bare_fs [''raw'', ''paper_1''] = None
   \<and> makedirs ([''merged''] @ [''train'', ''images'']) bare_fs = Inr bare_fs1
   \<and> makedirs ([''merged''] @ [''train'', ''labels'']) bare_fs1 = Inr bare_fs2
   \<and> convert_labels demo_load [''raw'', ''paper_1''] [''merged''] ''train'' bare_fs
        = (Inr 0, bare_fs2, [Print (NoDataYaml [''raw'', ''paper_1''])])
   \<and> lookup bare_fs2 [''raw'', ''paper_1'', ''train'', ''images'', ''a.jpg''] = Some (File ''JPEG'')"
proof -
  have a: "find_data_yaml bare_fs [''raw'', ''paper_1''] = None" by code_simp
  have b: "makedirs ([''merged''] @ [''train'', ''images'']) bare_fs = Inr bare_fs1" by code_simp
  have c: "makedirs ([''merged''] @ [''train'', ''labels'']) bare_fs1 = Inr bare_fs2" by code_simp
  have d: "lookup bare_fs [''raw'', ''paper_1'', ''train'', ''images'', ''a.jpg''] = Some (File ''JPEG'')"
    by code_simp
  from convert_labels_without_metadata [OF a b c, of demo_load] a b c d
  show ?thesis by simp
qed

section \<open>Images are copied whatever happens to their labels\<close>

subsection \<open>Reading back what was written\<close>

lemma lookup_write_file_same:
  "write_file p content fs = Inr fs' \<Longrightarrow> lookup fs' p = Some (File content)"
proof (induction p content fs arbitrary: fs' rule: write_file.induct)
  case (3 x content es)
  then show ?case
    by (auto simp: update_conv' split: option.splits node.splits)
next
  case (4 x y ys content es)
  then show ?case
    by (auto simp: update_conv' split: option.splits sum.splits)
qed simp_all

lemma lookup_write_file_other:
  "write_file p content fs = Inr fs' \<Longrightarrow> take (length q) p \<noteq> q \<Longrightarrow>
   lookup fs' q = lookup fs q"
proof (induction p content fs arbitrary: fs' q rule: write_file.induct)
  case (3 x content es)
  then obtain z zs where q: "q = z # zs" by (cases q) auto
  show ?case
  proof (cases "z = x")
    case False
    with 3 q show ?thesis
      by (auto simp: update_conv' split: option.splits node.splits)
  next
    case True
    with 3 q obtain w ws where "zs = w # ws" by (cases zs) auto
    with 3 q True show ?thesis
      by (auto simp: update_conv' split: option.splits node.splits)
  qed
next
  case (4 x y ys content es)
  then obtain z zs where q: "q = z # zs" by (cases q) auto
  from "4.prems"(1) obtain n n' where n: "map_of es x = Some n"
      "write_file (y # ys) content n = Inr n'" "fs' = Dir (AList.update x n' es)"
    by (auto split: option.splits sum.splits)
  show ?case
  proof (cases "z = x")
    case False
    with n q show ?thesis by (simp add: update_conv')
  next
    case True
    with "4.prems"(2) q have "take (length zs) (y # ys) \<noteq> zs" by simp
    from "4.IH" [OF n(1,2) this] n q True show ?thesis
      by (simp add: update_conv')
  qed
qed simp_all

subsection \<open>One image\<close>

lemma convert_image_cases:
  assumes "has_image_ext img_file"
    and "convert_image source_classes dataset_dir output_dir split split_name img_file count fs
           = (Inr count', fs')"
    and "\<not> isdir fs (output_dir @ [split, ''images'', path_name dataset_dir @ ''_'' @ img_file])"
  shows "\<exists>data fs1.
      read_file fs (dataset_dir @ [split_name, ''images'', img_file]) = Inr data
    \<and> write_file (output_dir @ [split, ''images'', path_name dataset_dir @ ''_'' @ img_file])
         data fs = Inr fs1
    \<and> lookup fs' (output_dir @ [split, ''images'', path_name dataset_dir @ ''_'' @ img_file])
         = Some (File data)
    \<and> ((\<exists>content new_lines.
            read_file fs1 (dataset_dir @ [split_name, ''labels'', splitext_root img_file @ ''.txt''])
              = Inr content
          \<and> convert_lines source_classes (readlines content) [] = Inr new_lines
          \<and> new_lines \<noteq> []
          \<and> write_file (output_dir @ [split, ''labels'',
                 path_name dataset_dir @ ''_'' @ splitext_root img_file @ ''.txt''])
               (py_join [CHR 0x0A] new_lines) fs1 = Inr fs'
          \<and> count' = count + 1)
       \<or> (fs' = fs1 \<and> count' = count
          \<and> (\<not> path_exists fs1
                  (dataset_dir @ [split_name, ''labels'', splitext_root img_file @ ''.txt''])
              \<or> (\<exists>content.
                    read_file fs1
                      (dataset_dir @ [split_name, ''labels'', splitext_root img_file @ ''.txt''])
                      = Inr content
                  \<and> convert_lines source_classes (readlines content) [] = Inr []))))"
proof -
  let ?src_img = "dataset_dir @ [split_name, ''images'', img_file]"
  let ?dst_img = "output_dir @ [split, ''images'', path_name dataset_dir @ ''_'' @ img_file]"
  let ?src_lbl = "dataset_dir @ [split_name, ''labels'', splitext_root img_file @ ''.txt'']"
  let ?dst_lbl = "output_dir @ [split, ''labels'',
                    path_name dataset_dir @ ''_'' @ splitext_root img_file @ ''.txt'']"
  from assms(1,2) obtain fs1 where copy: "shutil_copy ?src_img ?dst_img fs = Inr fs1"
    by (auto simp: convert_image_def Let_def split: sum.splits)
  with assms(3) obtain data where data: "read_file fs ?src_img = Inr data"
      and w1: "write_file ?dst_img data fs = Inr fs1"
    by (auto simp: shutil_copy_def Let_def split: if_splits sum.splits)
  have img1: "lookup fs1 ?dst_img = Some (File data)"
    using w1 by (rule lookup_write_file_same)
  have rest: "(\<exists>content new_lines.
            read_file fs1 ?src_lbl = Inr content
          \<and> convert_lines source_classes (readlines content) [] = Inr new_lines
          \<and> new_lines \<noteq> []
          \<and> write_file ?dst_lbl (py_join [CHR 0x0A] new_lines) fs1 = Inr fs'
          \<and> count' = count + 1)
       \<or> (fs' = fs1 \<and> count' = count
          \<and> (\<not> path_exists fs1 ?src_lbl
              \<or> (\<exists>content. read_file fs1 ?src_lbl = Inr content
                  \<and> convert_lines source_classes (readlines content) [] = Inr [])))"
    using assms(1,2) copy
    by (auto simp: convert_image_def Let_def split: if_splits sum.splits)
  have "lookup fs' ?dst_img = Some (File data)"
  proof -
    have "lookup fs' ?dst_img = lookup fs1 ?dst_img"
      if "write_file ?dst_lbl content fs1 = Inr fs'" for content
      using that by (rule lookup_write_file_other) simp
    with rest img1 show ?thesis by auto
  qed
  with data w1 rest show ?thesis by blast
qed

subsection \<open>Paths below the dataset and below the output directory\<close>

lemma disjoint_not_prefix:
  assumes "take (length ds) out \<noteq> ds" and "take (length out) ds \<noteq> out"
  shows "take (length (ds @ r)) (out @ s) \<noteq> ds @ r"
proof
  assume eq: "take (length (ds @ r)) (out @ s) = ds @ r"
  show False
  proof (cases "length ds \<le> length out")
    case True
    have "take (length ds) out = take (length ds) (take (length (ds @ r)) (out @ s))"
      using True by (simp add: min_def)
    also have "\<dots> = take (length ds) (ds @ r)"
      by (simp only: eq)
    finally show False
      using assms(1) by simp
  next
    case False
    have "out = take (length out) (take (length (ds @ r)) (out @ s))"
      using False by (simp add: min_def)
    also have "\<dots> = take (length out) (ds @ r)"
      by (simp only: eq)
    finally show False
      using assms(2) False by simp
  qed
qed

lemma lookup_makedirs_other:
  "makedirs p fs = Inr fs' \<Longrightarrow> take (length q) p \<noteq> q \<Longrightarrow> lookup fs' q = lookup fs q"
proof (induction p arbitrary: fs fs' q)
  case Nil
  then show ?case by (cases fs) auto
next
  case (Cons x xs)
  from Cons.prems(1) obtain es where fs: "fs = Dir es"
    by (cases fs) auto
  define c0 where "c0 = (case map_of es x of None \<Rightarrow> Dir [] | Some n \<Rightarrow> n)"
  from Cons.prems(1) fs obtain n' where n': "makedirs xs c0 = Inr n'"
      and fs': "fs' = Dir (AList.update x n' es)"
    by (auto simp: c0_def split: sum.splits)
  from Cons.prems(2) obtain y ys where q: "q = y # ys"
    by (cases q) auto
  show ?case
  proof (cases "y = x")
    case False
    then show ?thesis by (simp add: fs fs' q update_conv')
  next
    case True
    with Cons.prems(2) q have ne: "take (length ys) xs \<noteq> ys" by simp
    have ih: "lookup n' ys = lookup c0 ys"
      using n' ne by (rule Cons.IH)
    have "lookup c0 ys = None" if "map_of es x = None"
      using that ne by (cases ys) (simp_all add: c0_def)
    with ih show ?thesis
      by (auto simp: fs fs' q True update_conv' c0_def split: option.splits)
  qed
qed

lemma lookup_write_sibling:
  assumes "write_file (out @ [a, b, c]) content fs = Inr fs'"
    and "[a', b', c'] \<noteq> [a, b, c]"
  shows "lookup fs' (out @ [a', b', c']) = lookup fs (out @ [a', b', c'])"
  using assms(1)
proof (rule lookup_write_file_other)
  show "take (length (out @ [a', b', c'])) (out @ [a, b, c]) \<noteq> out @ [a', b', c']"
    using assms(2) by auto
qed

subsection \<open>The dataset is only read\<close>

lemma same_dataset_refl: "same_dataset ds fs fs"
  by (simp add: same_dataset_def)

lemma same_dataset_trans:
  "same_dataset ds a b \<Longrightarrow> same_dataset ds b c \<Longrightarrow> same_dataset ds a c"
  by (simp add: same_dataset_def)

lemma same_dataset_write_file:
  assumes "write_file (out @ s) content fs = Inr fs'"
    and "take (length ds) out \<noteq> ds" and "take (length out) ds \<noteq> out"
  shows "same_dataset ds fs fs'"
  unfolding same_dataset_def
proof
  fix r
  from assms(1) disjoint_not_prefix [OF assms(2,3)]
  show "lookup fs' (ds @ r) = lookup fs (ds @ r)"
    by (rule lookup_write_file_other)
qed

lemma same_dataset_makedirs:
  assumes "makedirs (out @ s) fs = Inr fs'"
    and "take (length ds) out \<noteq> ds" and "take (length out) ds \<noteq> out"
  shows "same_dataset ds fs fs'"
  unfolding same_dataset_def
proof
  fix r
  from assms(1) disjoint_not_prefix [OF assms(2,3)]
  show "lookup fs' (ds @ r) = lookup fs (ds @ r)"
    by (rule lookup_makedirs_other)
qed

lemma same_dataset_read_file:
  "same_dataset ds fs fs' \<Longrightarrow> read_file fs' (ds @ r) = read_file fs (ds @ r)"
  by (simp add: same_dataset_def read_file_def)

lemma same_dataset_path_exists:
  "same_dataset ds fs fs' \<Longrightarrow> path_exists fs' (ds @ r) = path_exists fs (ds @ r)"
  by (simp add: same_dataset_def path_exists_def)

lemma same_dataset_listdir:
  "same_dataset ds fs fs' \<Longrightarrow> listdir fs' (ds @ r) = listdir fs (ds @ r)"
  by (simp add: same_dataset_def listdir_def)

lemma same_dataset_kept_lines:
  "same_dataset ds fs fs' \<Longrightarrow> kept_lines sc fs' ds sn img = kept_lines sc fs ds sn img"
  using same_dataset_read_file [of ds fs fs' "[sn, ''labels'', splitext_root img @ ''.txt'']"]
  by (simp add: kept_lines_def src_label_def)

subsection \<open>One image more\<close>

lemma progress_step:
  assumes P: "progress sc ds out split fs0 seen count fs"
    and D: "take (length ds) out \<noteq> ds" "take (length out) ds \<noteq> out"
    and ext: "has_image_ext img"
    and run: "convert_image sc ds out split sn img count fs = (Inr count', fs')"
  shows "progress sc ds out split fs0 (seen @ [(sn, img)]) count' fs'"
proof -
  let ?dimg = "out @ [split, ''images'', path_name ds @ ''_'' @ img]"
  let ?dlbl = "out @ [split, ''labels'', path_name ds @ ''_'' @ splitext_root img @ ''.txt'']"
  let ?slbl = "ds @ [sn, ''labels'', splitext_root img @ ''.txt'']"
  from P have same: "same_dataset ds fs0 fs"
    and nodir: "\<And>x. \<not> isdir fs (out @ [split, ''images'', x])"
    and copied: "\<And>p. p \<in> set seen \<Longrightarrow> \<exists>sn data. (sn, snd p) \<in> set seen
          \<and> read_file fs0 (src_image ds sn (snd p)) = Inr data
          \<and> lookup fs (dst_image ds out split (snd p)) = Some (File data)"
    and labelled: "\<And>p. p \<in> set seen \<Longrightarrow> has_label sc fs0 ds p \<Longrightarrow>
          \<exists>q \<in> set seen. has_label sc fs0 ds q
              \<and> splitext_root (snd q) = splitext_root (snd p)
              \<and> lookup fs (dst_label ds out split (snd p))
                  = Some (File (py_join [CHR 0x0A] (kept_lines sc fs0 ds (fst q) (snd q))))"
    and cnt: "count = length (filter (has_label sc fs0 ds) seen)"
    and lbl: "\<And>y. lookup fs (out @ [split, ''labels'', y]) \<noteq> lookup fs0 (out @ [split, ''labels'', y])
          \<Longrightarrow> \<exists>p \<in> set seen. has_label sc fs0 ds p
                \<and> y = path_name ds @ ''_'' @ splitext_root (snd p) @ ''.txt''"
    by (auto simp: progress_def)
  from convert_image_cases [OF ext run nodir] obtain data fs1
    where rd: "read_file fs (ds @ [sn, ''images'', img]) = Inr data"
      and w1: "write_file ?dimg data fs = Inr fs1"
      and img': "lookup fs' ?dimg = Some (File data)"
      and rest: "(\<exists>content new_lines.
            read_file fs1 ?slbl = Inr content
          \<and> convert_lines sc (readlines content) [] = Inr new_lines
          \<and> new_lines \<noteq> []
          \<and> write_file ?dlbl (py_join [CHR 0x0A] new_lines) fs1 = Inr fs'
          \<and> count' = count + 1)
       \<or> (fs' = fs1 \<and> count' = count
          \<and> (\<not> path_exists fs1 ?slbl
              \<or> (\<exists>content. read_file fs1 ?slbl = Inr content
                  \<and> convert_lines sc (readlines content) [] = Inr [])))"
    by blast
  have s1: "same_dataset ds fs fs1"
    using w1 D by (rule same_dataset_write_file)
  have s01: "same_dataset ds fs0 fs1"
    using same s1 by (rule same_dataset_trans)
  have rl: "read_file fs1 ?slbl = read_file fs0 ?slbl"
    using s01 by (rule same_dataset_read_file)
  have pl: "path_exists fs1 ?slbl = path_exists fs0 ?slbl"
    using s01 by (rule same_dataset_path_exists)
  have missing: "read_file fs0 ?slbl = Inl FileNotFoundError" if "\<not> path_exists fs0 ?slbl"
    using that by (simp add: path_exists_def read_file_def)
  from rest consider
      (written) content where "has_label sc fs0 ds (sn, img)" "count' = count + 1"
        "write_file ?dlbl content fs1 = Inr fs'"
        "content = py_join [CHR 0x0A] (kept_lines sc fs0 ds sn img)"
    | (skipped) "\<not> has_label sc fs0 ds (sn, img)" "count' = count" "fs' = fs1"
  proof (elim disjE exE conjE)
    fix content new_lines
    assume a: "read_file fs1 ?slbl = Inr content"
      "convert_lines sc (readlines content) [] = Inr new_lines" "new_lines \<noteq> []"
      "write_file ?dlbl (py_join [CHR 0x0A] new_lines) fs1 = Inr fs'" "count' = count + 1"
    assume w: "\<And>content. has_label sc fs0 ds (sn, img) \<Longrightarrow> count' = count + 1 \<Longrightarrow>
        write_file ?dlbl content fs1 = Inr fs' \<Longrightarrow>
        content = py_join [CHR 0x0A] (kept_lines sc fs0 ds sn img) \<Longrightarrow> thesis"
    from a(1,2) rl have k: "kept_lines sc fs0 ds sn img = new_lines"
      by (simp add: kept_lines_def src_label_def)
    with a(3) have "has_label sc fs0 ds (sn, img)"
      by (simp add: has_label_def)
    from w [OF this a(5) a(4)] k show thesis by simp
  next
    assume a: "fs' = fs1" "count' = count" "\<not> path_exists fs1 ?slbl"
    assume s: "\<not> has_label sc fs0 ds (sn, img) \<Longrightarrow> count' = count \<Longrightarrow> fs' = fs1 \<Longrightarrow> thesis"
    from a(3) pl missing have "\<not> has_label sc fs0 ds (sn, img)"
      by (simp add: has_label_def kept_lines_def src_label_def)
    from s [OF this a(2) a(1)] show thesis .
  next
    fix content
    assume a: "fs' = fs1" "count' = count" "read_file fs1 ?slbl = Inr content"
      "convert_lines sc (readlines content) [] = Inr []"
    assume s: "\<not> has_label sc fs0 ds (sn, img) \<Longrightarrow> count' = count \<Longrightarrow> fs' = fs1 \<Longrightarrow> thesis"
    from a(3,4) rl have "\<not> has_label sc fs0 ds (sn, img)"
      by (simp add: has_label_def kept_lines_def src_label_def)
    from s [OF this a(2) a(1)] show thesis .
  qed
  note cases = this
  have s12: "same_dataset ds fs1 fs'"
  proof (cases rule: cases)
    case (written content)
    from written(3) D show ?thesis by (rule same_dataset_write_file)
  next
    case skipped
    then show ?thesis by (simp add: same_dataset_refl)
  qed
  have same': "same_dataset ds fs0 fs'"
    using s01 s12 by (rule same_dataset_trans)
  have img1: "lookup fs1 (out @ [split, ''images'', x]) = lookup fs (out @ [split, ''images'', x])"
    if "x \<noteq> path_name ds @ ''_'' @ img" for x
    using w1 that by (intro lookup_write_sibling) auto
  have img2: "lookup fs' (out @ [split, ''images'', x]) = lookup fs1 (out @ [split, ''images'', x])"
    for x
  proof (cases rule: cases)
    case (written content)
    from written(3) show ?thesis by (intro lookup_write_sibling) auto
  next
    case skipped
    then show ?thesis by simp
  qed
  have lbl1: "lookup fs1 (out @ [split, ''labels'', y]) = lookup fs (out @ [split, ''labels'', y])"
    for y
    using w1 by (intro lookup_write_sibling) auto
  have nodir': "\<not> isdir fs' (out @ [split, ''images'', x])" for x
  proof (cases "x = path_name ds @ ''_'' @ img")
    case True
    with img' show ?thesis by (simp add: isdir_def)
  next
    case False
    with img1 [of x] img2 [of x] nodir [of x] show ?thesis
      by (simp add: isdir_def)
  qed
  have rd0: "read_file fs0 (src_image ds sn img) = Inr data"
    using rd same_dataset_read_file [OF same, of "[sn, ''images'', img]"]
    by (simp add: src_image_def)
  have copied': "\<exists>sn' data'. (sn', snd p) \<in> set (seen @ [(sn, img)])
          \<and> read_file fs0 (src_image ds sn' (snd p)) = Inr data'
          \<and> lookup fs' (dst_image ds out split (snd p)) = Some (File data')"
    if p: "p \<in> set (seen @ [(sn, img)])" for p
  proof (cases "snd p = img")
    case True
    with rd0 img' show ?thesis
      by (auto simp: dst_image_def)
  next
    case False
    with p have "p \<in> set seen" by auto
    from copied [OF this] obtain sn0 data0 where old: "(sn0, snd p) \<in> set seen"
        "read_file fs0 (src_image ds sn0 (snd p)) = Inr data0"
        "lookup fs (dst_image ds out split (snd p)) = Some (File data0)"
      by blast
    from False have "path_name ds @ ''_'' @ snd p \<noteq> path_name ds @ ''_'' @ img" by simp
    from img1 [OF this] img2 [of "path_name ds @ ''_'' @ snd p"] old(3)
    have "lookup fs' (dst_image ds out split (snd p)) = Some (File data0)"
      by (simp add: dst_image_def)
    with old(1,2) show ?thesis by auto
  qed
  have lbl2: "lookup fs' (out @ [split, ''labels'', y]) = lookup fs (out @ [split, ''labels'', y])"
    if "y \<noteq> path_name ds @ ''_'' @ splitext_root img @ ''.txt''" for y
  proof (cases rule: cases)
    case (written content)
    from written(3) that have "lookup fs' (out @ [split, ''labels'', y])
        = lookup fs1 (out @ [split, ''labels'', y])"
      by (intro lookup_write_sibling) auto
    with lbl1 [of y] show ?thesis by simp
  next
    case skipped
    with lbl1 [of y] show ?thesis by simp
  qed
  have labelled': "\<exists>q \<in> set (seen @ [(sn, img)]). has_label sc fs0 ds q
              \<and> splitext_root (snd q) = splitext_root (snd p)
              \<and> lookup fs' (dst_label ds out split (snd p))
                  = Some (File (py_join [CHR 0x0A] (kept_lines sc fs0 ds (fst q) (snd q))))"
    if p: "p \<in> set (seen @ [(sn, img)])" and hl: "has_label sc fs0 ds p" for p
  proof (cases "splitext_root (snd p) = splitext_root img")
    case True
    show ?thesis
    proof (cases rule: cases)
      case (written content)
      from lookup_write_file_same [OF written(3)] written(4) True
      have "lookup fs' (dst_label ds out split (snd p))
          = Some (File (py_join [CHR 0x0A] (kept_lines sc fs0 ds sn img)))"
        by (simp add: dst_label_def)
      with written(1) True show ?thesis by auto
    next
      case skipped
      with p hl have "p \<in> set seen" by auto
      from labelled [OF this hl] obtain q where q: "q \<in> set seen" "has_label sc fs0 ds q"
          "splitext_root (snd q) = splitext_root (snd p)"
          "lookup fs (dst_label ds out split (snd p))
             = Some (File (py_join [CHR 0x0A] (kept_lines sc fs0 ds (fst q) (snd q))))"
        by blast
      from skipped(3) lbl1 [of "path_name ds @ ''_'' @ splitext_root (snd p) @ ''.txt''"] q(4)
      have "lookup fs' (dst_label ds out split (snd p))
             = Some (File (py_join [CHR 0x0A] (kept_lines sc fs0 ds (fst q) (snd q))))"
        by (simp add: dst_label_def)
      with q(1-3) show ?thesis by auto
    qed
  next
    case False
    with p have "p \<in> set seen" by auto
    from labelled [OF this hl] obtain q where q: "q \<in> set seen" "has_label sc fs0 ds q"
        "splitext_root (snd q) = splitext_root (snd p)"
        "lookup fs (dst_label ds out split (snd p))
           = Some (File (py_join [CHR 0x0A] (kept_lines sc fs0 ds (fst q) (snd q))))"
      by blast
    from False have "path_name ds @ ''_'' @ splitext_root (snd p) @ ''.txt''
        \<noteq> path_name ds @ ''_'' @ splitext_root img @ ''.txt''"
      by simp
    from lbl2 [OF this] q(4)
    have "lookup fs' (dst_label ds out split (snd p))
           = Some (File (py_join [CHR 0x0A] (kept_lines sc fs0 ds (fst q) (snd q))))"
      by (simp add: dst_label_def)
    with q(1-3) show ?thesis by auto
  qed
  have cnt': "count' = length (filter (has_label sc fs0 ds) (seen @ [(sn, img)]))"
    by (cases rule: cases) (simp_all add: cnt)
  have lbl': "\<exists>p \<in> set (seen @ [(sn, img)]). has_label sc fs0 ds p
                \<and> y = path_name ds @ ''_'' @ splitext_root (snd p) @ ''.txt''"
    if ne: "lookup fs' (out @ [split, ''labels'', y]) \<noteq> lookup fs0 (out @ [split, ''labels'', y])"
    for y
  proof (cases "lookup fs' (out @ [split, ''labels'', y]) = lookup fs1 (out @ [split, ''labels'', y])")
    case True
    with ne lbl1 [of y] lbl [of y] show ?thesis by auto
  next
    case False
    show ?thesis
    proof (cases rule: cases)
      case (written content)
      have "y = path_name ds @ ''_'' @ splitext_root img @ ''.txt''"
      proof (rule ccontr)
        assume "y \<noteq> path_name ds @ ''_'' @ splitext_root img @ ''.txt''"
        with written(3) have "lookup fs' (out @ [split, ''labels'', y])
            = lookup fs1 (out @ [split, ''labels'', y])"
          by (intro lookup_write_sibling) auto
        with False show False by simp
      qed
      with written(1) show ?thesis by auto
    next
      case skipped
      with False show ?thesis by simp
    qed
  qed
  from same' nodir' copied' labelled' cnt' lbl' show ?thesis
    unfolding progress_def by blast
qed

subsection \<open>The images of a directory, and of the three splits\<close>

lemma progress_images:
  assumes D: "take (length ds) out \<noteq> ds" "take (length out) ds \<noteq> out"
  shows "progress sc ds out split fs0 seen count fs \<Longrightarrow>
         convert_images sc ds out split sn imgs count fs = (Inr count', fs') \<Longrightarrow>
         progress sc ds out split fs0 (seen @ map (Pair sn) (filter has_image_ext imgs)) count' fs'"
proof (induction imgs arbitrary: seen count fs)
  case Nil
  then show ?case by simp
next
  case (Cons img imgs)
  obtain r1 fs1 where step: "convert_image sc ds out split sn img count fs = (r1, fs1)"
    by (cases "convert_image sc ds out split sn img count fs")
  with Cons.prems(2) obtain c1 where r1: "r1 = Inr c1"
      and rest: "convert_images sc ds out split sn imgs c1 fs1 = (Inr count', fs')"
    by (cases r1) auto
  show ?case
  proof (cases "has_image_ext img")
    case True
    from progress_step [OF Cons.prems(1) D True step [unfolded r1]]
    have "progress sc ds out split fs0 (seen @ [(sn, img)]) c1 fs1" .
    from Cons.IH [OF this rest] True show ?thesis by simp
  next
    case False
    with step r1 have "c1 = count" "fs1 = fs"
      by (simp_all add: convert_image_def)
    with Cons.IH [OF Cons.prems(1)] rest False show ?thesis by simp
  qed
qed

lemma progress_splits:
  assumes D: "take (length ds) out \<noteq> ds" "take (length out) ds \<noteq> out"
  shows "progress sc ds out split fs0 seen count fs \<Longrightarrow>
         convert_splits sc ds out split sns count fs = (Inr count', fs') \<Longrightarrow>
         progress sc ds out split fs0
           (seen @ concat (map (\<lambda>sn. map (Pair sn) (split_images fs0 ds sn)) sns)) count' fs'"
proof (induction sns arbitrary: seen count fs)
  case Nil
  then show ?case by simp
next
  case (Cons sn sns)
  from Cons.prems(1) have same: "same_dataset ds fs0 fs"
    by (simp add: progress_def)
  have ex: "path_exists fs (ds @ [sn, ''images'']) = path_exists fs0 (ds @ [sn, ''images''])"
    using same by (rule same_dataset_path_exists)
  have ls: "listdir fs (ds @ [sn, ''images'']) = listdir fs0 (ds @ [sn, ''images''])"
    using same by (rule same_dataset_listdir)
  show ?case
  proof (cases "path_exists fs0 (ds @ [sn, ''images''])")
    case False
    then have "split_images fs0 ds sn = []"
      by (simp add: split_images_def listdir_def path_exists_def)
    moreover from False ex Cons.prems(2)
    have "convert_splits sc ds out split sns count fs = (Inr count', fs')"
      by simp
    ultimately show ?thesis
      using Cons.IH [OF Cons.prems(1)] by simp
  next
    case True
    with ex Cons.prems(2) ls obtain imgs where imgs: "listdir fs0 (ds @ [sn, ''images'']) = Inr imgs"
      by (cases "listdir fs0 (ds @ [sn, ''images''])") auto
    obtain r1 fs1 where step: "convert_images sc ds out split sn imgs count fs = (r1, fs1)"
      by (cases "convert_images sc ds out split sn imgs count fs")
    with True ex ls imgs Cons.prems(2) obtain c1 where r1: "r1 = Inr c1"
        and rest: "convert_splits sc ds out split sns c1 fs1 = (Inr count', fs')"
      by (cases r1) auto
    from progress_images [OF D Cons.prems(1) step [unfolded r1]]
    have "progress sc ds out split fs0 (seen @ map (Pair sn) (filter has_image_ext imgs)) c1 fs1" .
    from Cons.IH [OF this rest] imgs show ?thesis
      by (simp add: split_images_def)
  qed
qed

subsection \<open>convert_labels\<close>

lemma read_file_makedirs:
  "makedirs p fs = Inr fs' \<Longrightarrow> read_file fs q = Inr content \<Longrightarrow> read_file fs' q = Inr content"
  using lookup_file_makedirs [of p fs fs' q content]
  by (auto simp: read_file_def split: option.splits node.splits)

lemma lookup_makedirs_below:
  assumes "makedirs (out @ [a, b]) fs = Inr fs'"
  shows "lookup fs' (out @ [a', b', c']) = lookup fs (out @ [a', b', c'])"
  using assms by (rule lookup_makedirs_other) simp

text \<open>
  Claim C10. Let the dataset directory and the output directory lie apart, let no
  directory stand in the merged images folder, and let the metadata file of the dataset
  load. When \<open>convert_labels\<close> returns, every source image with a recognised extension
  has its copy under the prefixed name in the merged images folder, holding the content
  of a source image of that name, whether or not the image has a label file and
  whether or not a line of it is kept. A source image of which at least one line is
  kept has its label file in the merged labels folder, holding the kept lines of an
  image of that stem; an entry of the merged labels folder differs from before only if
  it is the label file of such an image, so an image without a kept line is copied and
  gets no label file. The count returned is the number of source images with a kept
  line, one for each time a label file is written, not the number of images copied.
  The dataset is left as it was.
\<close>

theorem convert_labels_copies_every_image:
  assumes "take (length dataset_dir) output_dir \<noteq> dataset_dir"
    and "take (length output_dir) dataset_dir \<noteq> output_dir"
    and "\<forall>x. \<not> isdir fs (output_dir @ [split, ''images'', x])"
    and "find_data_yaml fs dataset_dir = Some data_yaml"
    and "read_file fs data_yaml = Inr content"
    and "safe_load content = Inr config"
    and "config_names config = Inr names"
    and "convert_labels safe_load dataset_dir output_dir split fs = (Inr count, fs', ev)"
  shows "(\<forall>p \<in> set (source_images fs dataset_dir). \<exists>sn data.
            (sn, snd p) \<in> set (source_images fs dataset_dir)
          \<and> read_file fs (src_image dataset_dir sn (snd p)) = Inr data
          \<and> lookup fs' (dst_image dataset_dir output_dir split (snd p)) = Some (File data))
       \<and> (\<forall>p \<in> set (source_images fs dataset_dir).
            has_label (source_classes_of names) fs dataset_dir p \<longrightarrow>
            (\<exists>q \<in> set (source_images fs dataset_dir).
                has_label (source_classes_of names) fs dataset_dir q
              \<and> splitext_root (snd q) = splitext_root (snd p)
              \<and> lookup fs' (dst_label dataset_dir output_dir split (snd p))
                  = Some (File (py_join [CHR 0x0A]
                      (kept_lines (source_classes_of names) fs dataset_dir (fst q) (snd q))))))
       \<and> (\<forall>y. lookup fs' (output_dir @ [split, ''labels'', y])
                 \<noteq> lookup fs (output_dir @ [split, ''labels'', y])
            \<longrightarrow> (\<exists>p \<in> set (source_images fs dataset_dir).
                    has_label (source_classes_of names) fs dataset_dir p
                  \<and> y = path_name dataset_dir @ ''_'' @ splitext_root (snd p) @ ''.txt''))
       \<and> count = length (filter (has_label (source_classes_of names) fs dataset_dir)
                           (source_images fs dataset_dir))
       \<and> same_dataset dataset_dir fs fs'"
proof -
  let ?sc = "source_classes_of names"
  from assms(8) obtain fs1 where m1: "makedirs (output_dir @ [split, ''images'']) fs = Inr fs1"
    by (cases "makedirs (output_dir @ [split, ''images'']) fs")
       (simp_all add: convert_labels_def)
  with assms(8) obtain fs2 where m2: "makedirs (output_dir @ [split, ''labels'']) fs1 = Inr fs2"
    by (cases "makedirs (output_dir @ [split, ''labels'']) fs1")
       (simp_all add: convert_labels_def)
  have found: "find_data_yaml fs2 dataset_dir = Some data_yaml"
    using assms(4) m1 m2 by (simp add: find_data_yaml_makedirs)
  have loaded: "read_file fs2 data_yaml = Inr content"
    using m2 read_file_makedirs [OF m1 assms(5)] by (rule read_file_makedirs)
  have loops: "convert_splits ?sc dataset_dir output_dir split
      [''train'', ''valid'', ''test''] 0 fs2 = (Inr count, fs')"
    using assms(8) m1 m2 found loaded assms(6,7)
    by (auto simp: convert_labels_def Let_def simp del: convert_splits.simps
             split: prod.splits)
  have same: "same_dataset dataset_dir fs fs2"
    using same_dataset_makedirs [OF m1 assms(1,2)] same_dataset_makedirs [OF m2 assms(1,2)]
    by (rule same_dataset_trans)
  have below: "lookup fs2 (output_dir @ [split, b, c]) = lookup fs (output_dir @ [split, b, c])"
    for b c
    using lookup_makedirs_below [OF m1, of split b c] lookup_makedirs_below [OF m2, of split b c]
    by simp
  have start: "progress ?sc dataset_dir output_dir split fs [] 0 fs2"
    using same below assms(3) by (simp add: progress_def isdir_def)
  from progress_splits [OF assms(1,2) start loops]
  have "progress ?sc dataset_dir output_dir split fs (source_images fs dataset_dir) count fs'"
    by (simp add: source_images_def)
  then show ?thesis
    unfolding progress_def by blast
qed

theorem convert_labels_copies_every_image_witness:
  "take (length [''raw'', ''phone_2'']) [''merged''] \<noteq> [''raw'', ''phone_2'']
   \<and> take (length [''merged'']) [''raw'', ''phone_2''] \<noteq> [''merged'']
   \<and> (\<forall>x. \<not> isdir mixed_fs ([''merged''] @ [''train'', ''images'', x]))
   \<and> find_data_yaml mixed_fs [''raw'', ''phone_2''] = Some [''raw'', ''phone_2'', ''data.yaml'']
   \<and> read_file mixed_fs [''raw'', ''phone_2'', ''data.yaml''] = Inr ''names: [mobile]''
   \<and> demo_load ''names: [mobile]'' = Inr (YDict [(YStr ''names'', YList [YStr ''mobile''])])
   \<and> config_names (YDict [(YStr ''names'', YList [YStr ''mobile''])]) = Inr (YList [YStr ''mobile''])
   \<and> convert_labels demo_load [''raw'', ''phone_2''] [''merged''] ''train'' mixed_fs
        = (Inr 1, mixed_merged, [Print (SourceClasses (YList [YStr ''mobile'']))])
   \<and> source_images mixed_fs [''raw'', ''phone_2'']
        = [(''train'', ''a.jpg''), (''train'', ''b.png''), (''train'', ''c.jpeg'')]
   \<and> 1 = length (filter (has_label (source_classes_of (YList [YStr ''mobile''])) mixed_fs
                           [''raw'', ''phone_2''])
                   (source_images mixed_fs [''raw'', ''phone_2'']))
   \<and> lookup mixed_merged (dst_image [''raw'', ''phone_2''] [''merged''] ''train'' ''a.jpg'')
        = Some (File ''A'')
   \<and> lookup mixed_merged (dst_label [''raw'', ''phone_2''] [''merged''] ''train'' ''a.jpg'') = None
   \<and> same_dataset [''raw'', ''phone_2''] mixed_fs mixed_merged"
proof -
  have a: "take (length [''raw'', ''phone_2'']) [''merged''] \<noteq> [''raw'', ''phone_2'']" by simp
  have b: "take (length [''merged'']) [''raw'', ''phone_2''] \<noteq> [''merged'']" by simp
  have c: "\<forall>x. \<not> isdir mixed_fs ([''merged''] @ [''train'', ''images'', x])"
    by (simp add: isdir_def mixed_fs_def)
  have d: "find_data_yaml mixed_fs [''raw'', ''phone_2''] = Some [''raw'', ''phone_2'', ''data.yaml'']"
    by code_simp
  have e: "read_file mixed_fs [''raw'', ''phone_2'', ''data.yaml''] = Inr ''names: [mobile]''"
    by code_simp
  have f: "demo_load ''names: [mobile]'' = Inr (YDict [(YStr ''names'', YList [YStr ''mobile''])])"
    by (simp add: demo_load_def)
  have g: "config_names (YDict [(YStr ''names'', YList [YStr ''mobile''])])
      = Inr (YList [YStr ''mobile''])" by code_simp
  have h: "convert_labels demo_load [''raw'', ''phone_2''] [''merged''] ''train'' mixed_fs
        = (Inr 1, mixed_merged, [Print (SourceClasses (YList [YStr ''mobile'']))])" by code_simp
  have i: "source_images mixed_fs [''raw'', ''phone_2'']
        = [(''train'', ''a.jpg''), (''train'', ''b.png''), (''train'', ''c.jpeg'')]" by code_simp
  have j: "lookup mixed_merged (dst_image [''raw'', ''phone_2''] [''merged''] ''train'' ''a.jpg'')
        = Some (File ''A'')" by code_simp
  have k: "lookup mixed_merged (dst_label [''raw'', ''phone_2''] [''merged''] ''train'' ''a.jpg'')
        = None" by code_simp
  note inst = convert_labels_copies_every_image
      [where safe_load = demo_load and content = "''names: [mobile]''", OF a b c d e f g h]
  from inst have "1 = length (filter (has_label (source_classes_of (YList [YStr ''mobile'']))
        mixed_fs [''raw'', ''phone_2'']) (source_images mixed_fs [''raw'', ''phone_2'']))"
    by blast
  moreover from inst have "same_dataset [''raw'', ''phone_2''] mixed_fs mixed_merged"
    by blast
  ultimately show ?thesis
    using a b c d e f g h i j k by blast
qed

section \<open>download_datasets\<close>

subsection \<open>Directories that exist\<close>

lemma path_exists_makedirs_mono:
  "makedirs p fs = Inr fs' \<Longrightarrow> path_exists fs q \<Longrightarrow> path_exists fs' q"
proof (induction p arbitrary: fs fs' q)
  case Nil
  then show ?case by (cases fs) auto
next
  case (Cons x xs)
  from Cons.prems(1) obtain es where fs: "fs = Dir es"
    by (cases fs) auto
  define c0 where "c0 = (case map_of es x of None \<Rightarrow> Dir [] | Some n \<Rightarrow> n)"
  from Cons.prems(1) fs obtain n' where n': "makedirs xs c0 = Inr n'"
      and fs': "fs' = Dir (AList.update x n' es)"
    by (auto simp: c0_def split: sum.splits)
  show ?case
  proof (cases q)
    case Nil
    then show ?thesis by (simp add: path_exists_def)
  next
    case q: (Cons y ys)
    show ?thesis
    proof (cases "y = x")
      case False
      with Cons.prems(2) show ?thesis
        by (simp add: path_exists_def fs fs' q update_conv')
    next
      case True
      with Cons.prems(2) q fs obtain c where c: "map_of es x = Some c" "path_exists c ys"
        by (auto simp: path_exists_def split: option.splits)
      then have "c0 = c" by (simp add: c0_def)
      with Cons.IH [of c n' ys] n' c have "path_exists n' ys" by simp
      then show ?thesis
        by (simp add: path_exists_def fs' q True update_conv')
    qed
  qed
qed

lemma path_exists_after_makedirs: "makedirs p fs = Inr fs' \<Longrightarrow> path_exists fs' p"
  using isdir_makedirs [of p "[]" fs fs']
  by (auto simp: isdir_def path_exists_def split: option.splits)

lemma makedirs_existing: "isdir fs p \<Longrightarrow> makedirs p fs = Inr fs"
proof (induction p arbitrary: fs)
  case Nil
  then show ?case by (auto simp: isdir_Nil)
next
  case (Cons x xs)
  then obtain es c where "fs = Dir es" "map_of es x = Some c" "isdir c xs"
    by (auto simp: isdir_Cons)
  with Cons.IH [of c] show ?case
    by (simp add: update_triv)
qed

lemma isdir_parent: "path_exists fs (p @ [x]) \<Longrightarrow> isdir fs p"
proof (induction p arbitrary: fs)
  case Nil
  then show ?case
    by (cases fs) (auto simp: path_exists_def isdir_def)
next
  case (Cons y ys)
  then show ?case
    by (cases fs) (auto simp: path_exists_def isdir_Cons split: option.splits)
qed

subsection \<open>One dataset\<close>

lemma download_one_existing:
  "path_exists fs (out @ [name]) \<Longrightarrow>
   download_one shell out name url fs = (Inr (), fs, [Print (AlreadyExists name)])"
  by (simp add: download_one_def)

lemma download_one_keeps:
  assumes "keeps_dirs shell out" and "download_one shell out name url fs = (r, fs', ev)"
    and "path_exists fs (out @ [n])"
  shows "path_exists fs' (out @ [n])"
proof (cases "path_exists fs (out @ [name])")
  case True
  with assms(2,3) show ?thesis by (simp add: download_one_def)
next
  case False
  show ?thesis
  proof (cases "makedirs (out @ [name]) fs")
    case (Inl e)
    with assms(2,3) False show ?thesis by (simp add: download_one_def)
  next
    case (Inr fs1)
    from path_exists_makedirs_mono [OF Inr assms(3)] have "path_exists fs1 (out @ [n])" .
    with assms(1) have "path_exists (shell c3 (shell c2 (shell c1 fs1))) (out @ [n])" for c1 c2 c3
      by (simp add: keeps_dirs_def)
    with assms(2) False Inr show ?thesis
      by (auto simp: download_one_def Let_def)
  qed
qed

lemma download_one_creates:
  assumes "keeps_dirs shell out" and "download_one shell out name url fs = (Inr u, fs', ev)"
  shows "path_exists fs' (out @ [name])"
proof (cases "path_exists fs (out @ [name])")
  case True
  with assms(2) show ?thesis by (simp add: download_one_def)
next
  case False
  with assms(2) obtain fs1 where fs1: "makedirs (out @ [name]) fs = Inr fs1"
    by (auto simp: download_one_def Let_def split: sum.splits)
  from path_exists_after_makedirs [OF fs1] assms(1)
  have "path_exists (shell c3 (shell c2 (shell c1 fs1))) (out @ [name])" for c1 c2 c3
    by (simp add: keeps_dirs_def)
  with assms(2) False fs1 show ?thesis
    by (auto simp: download_one_def Let_def)
qed

lemma download_one_commands:
  assumes "download_one shell out name url fs = (r, fs', ev)" and "System c \<in> set ev"
  shows "command_dir c = out @ [name] \<and> \<not> path_exists fs (out @ [name])"
  using assms
  by (auto simp: download_one_def Let_def butlast_append split: if_splits sum.splits)

subsection \<open>The loop over the datasets\<close>

lemma download_loop_keeps:
  "keeps_dirs shell out \<Longrightarrow> download_loop shell out ds fs = (r, fs', ev) \<Longrightarrow>
   path_exists fs (out @ [n]) \<Longrightarrow> path_exists fs' (out @ [n])"
proof (induction ds arbitrary: fs r fs' ev)
  case Nil
  then show ?case by simp
next
  case (Cons d ds)
  obtain name url where d: "d = (name, url)" by (cases d)
  obtain r1 fs1 ev1 where one: "download_one shell out name url fs = (r1, fs1, ev1)"
    by (cases "download_one shell out name url fs")
  from download_one_keeps [OF Cons.prems(1) one Cons.prems(3)]
  have e1: "path_exists fs1 (out @ [n])" .
  show ?case
  proof (cases r1)
    case (Inl e)
    with Cons.prems(2) d one e1 show ?thesis by simp
  next
    case (Inr u)
    with Cons.prems(2) d one obtain ev2 where "download_loop shell out ds fs1 = (r, fs', ev2)"
      by (auto split: prod.splits)
    from Cons.IH [OF Cons.prems(1) this e1] show ?thesis .
  qed
qed

lemma download_loop_commands:
  "keeps_dirs shell out \<Longrightarrow> download_loop shell out ds fs = (r, fs', ev) \<Longrightarrow>
   System c \<in> set ev \<Longrightarrow>
   \<not> path_exists fs (command_dir c) \<and> (\<exists>d \<in> set ds. command_dir c = out @ [fst d])"
proof (induction ds arbitrary: fs r fs' ev)
  case Nil
  then show ?case by simp
next
  case (Cons d ds)
  obtain name url where d: "d = (name, url)" by (cases d)
  obtain r1 fs1 ev1 where one: "download_one shell out name url fs = (r1, fs1, ev1)"
    by (cases "download_one shell out name url fs")
  show ?case
  proof (cases "System c \<in> set ev1")
    case True
    from download_one_commands [OF one True] d show ?thesis by simp
  next
    case False
    with Cons.prems(2,3) d one obtain u ev2
      where r1: "r1 = Inr u" and rest: "download_loop shell out ds fs1 = (r, fs', ev2)"
        and c: "System c \<in> set ev2"
      by (cases r1) (auto split: prod.splits)
    from Cons.IH [OF Cons.prems(1) rest c] obtain d' where d': "d' \<in> set ds"
        "command_dir c = out @ [fst d']" "\<not> path_exists fs1 (out @ [fst d'])"
      by auto
    from d'(3) download_one_keeps [OF Cons.prems(1) one, of "fst d'"]
    have "\<not> path_exists fs (out @ [fst d'])" by blast
    with d' show ?thesis by auto
  qed
qed

lemma download_loop_all_exist:
  "keeps_dirs shell out \<Longrightarrow> download_loop shell out ds fs = (Inr u, fs', ev) \<Longrightarrow>
   d \<in> set ds \<Longrightarrow> path_exists fs' (out @ [fst d])"
proof (induction ds arbitrary: fs fs' ev)
  case Nil
  then show ?case by simp
next
  case (Cons d0 ds)
  obtain name url where d0: "d0 = (name, url)" by (cases d0)
  obtain r1 fs1 ev1 where one: "download_one shell out name url fs = (r1, fs1, ev1)"
    by (cases "download_one shell out name url fs")
  with Cons.prems(2) d0 obtain u1 ev2 where r1: "r1 = Inr u1"
      and rest: "download_loop shell out ds fs1 = (Inr u, fs', ev2)"
    by (cases r1) (auto split: prod.splits)
  show ?case
  proof (cases "d = d0")
    case True
    from download_one_creates [OF Cons.prems(1) one [unfolded r1]]
    have "path_exists fs1 (out @ [name])" .
    from download_loop_keeps [OF Cons.prems(1) rest this] True d0 show ?thesis by simp
  next
    case False
    with Cons.prems(3) have "d \<in> set ds" by simp
    from Cons.IH [OF Cons.prems(1) rest this] show ?thesis .
  qed
qed

lemma download_loop_present:
  "\<forall>d \<in> set ds. path_exists fs (out @ [fst d]) \<Longrightarrow>
   download_loop shell out ds fs
     = (Inr (), fs, map (\<lambda>d. Print (AlreadyExists (fst d))) ds)"
proof (induction ds)
  case Nil
  then show ?case by simp
next
  case (Cons d ds)
  obtain name url where d: "d = (name, url)" by (cases d)
  with Cons show ?case
    by (simp add: download_one_existing)
qed

subsection \<open>Two runs\<close>

text \<open>
  Claim C8. The commands of a dataset (download, extraction, deletion of the archive)
  are run only when its directory does not exist at the start of the run: a run issues
  no command for a dataset whose directory exists. After a run that returned, a second
  run with no deletion in between issues no command at all, so no network call, and
  leaves the file system as it is. No shell command deletes an entry of the download
  directory.
\<close>

theorem download_skips_present_datasets:
  assumes "keeps_dirs shell output_dir"
  shows "(download_datasets shell output_dir fs = (r, fs', ev) \<and> System c \<in> set ev \<longrightarrow>
            \<not> path_exists fs (command_dir c)
          \<and> (\<exists>d \<in> set ROBOFLOW_DATASETS. command_dir c = output_dir @ [fst d]))
       \<and> (download_datasets shell output_dir fs = (r, fs', ev)
            \<and> path_exists fs (output_dir @ [name]) \<and> System c \<in> set ev \<longrightarrow>
            command_dir c \<noteq> output_dir @ [name])
       \<and> (download_datasets shell output_dir fs = (Inr u, fs1, ev1) \<longrightarrow>
            download_datasets shell output_dir fs1
              = (Inr (), fs1,
                 map (\<lambda>d. Print (AlreadyExists (fst d))) ROBOFLOW_DATASETS @ [Print AllDownloaded])
          \<and> \<not> list_ex is_network_call
                 (map (\<lambda>d. Print (AlreadyExists (fst d))) ROBOFLOW_DATASETS @ [Print AllDownloaded]))"
proof -
  have cmds: "\<not> path_exists fs (command_dir c)
          \<and> (\<exists>d \<in> set ROBOFLOW_DATASETS. command_dir c = output_dir @ [fst d])"
    if run: "download_datasets shell output_dir fs = (r, fs', ev)" and c: "System c \<in> set ev"
    for r fs' ev c
  proof -
    from run c obtain fs0 where fs0: "makedirs output_dir fs = Inr fs0"
      by (auto simp: download_datasets_def split: sum.splits)
    with run c obtain r2 ev2
      where loop: "download_loop shell output_dir ROBOFLOW_DATASETS fs0 = (r2, fs', ev2)"
        and c2: "System c \<in> set ev2"
      by (auto simp: download_datasets_def split: sum.splits prod.splits)
    from download_loop_commands [OF assms loop c2] path_exists_makedirs_mono [OF fs0]
    show ?thesis by blast
  qed
  have second: "download_datasets shell output_dir fs1
              = (Inr (), fs1,
                 map (\<lambda>d. Print (AlreadyExists (fst d))) ROBOFLOW_DATASETS @ [Print AllDownloaded])"
    if run: "download_datasets shell output_dir fs = (Inr u, fs1, ev1)"
  proof -
    from run obtain fs0 where fs0: "makedirs output_dir fs = Inr fs0"
      by (auto simp: download_datasets_def split: sum.splits)
    with run obtain u2 ev2
      where loop: "download_loop shell output_dir ROBOFLOW_DATASETS fs0 = (Inr u2, fs1, ev2)"
      by (auto simp: download_datasets_def split: sum.splits prod.splits)
    have all: "\<forall>d \<in> set ROBOFLOW_DATASETS. path_exists fs1 (output_dir @ [fst d])"
      using download_loop_all_exist [OF assms loop] by blast
    have "(''phone_1'', ''https://app.roboflow.com/ds/5ReObgnLbQ?key=HTPSgVzDLW'')
        \<in> set ROBOFLOW_DATASETS"
      by (simp add: ROBOFLOW_DATASETS_def)
    with all have "path_exists fs1 (output_dir @ [''phone_1''])" by fastforce
    then have "isdir fs1 output_dir" by (rule isdir_parent)
    then have "makedirs output_dir fs1 = Inr fs1" by (rule makedirs_existing)
    with download_loop_present [OF all, of shell] show ?thesis
      by (simp add: download_datasets_def)
  qed
  have quiet: "\<not> list_ex is_network_call
      (map (\<lambda>d. Print (AlreadyExists (fst d))) ROBOFLOW_DATASETS @ [Print AllDownloaded])"
    by (simp add: list_ex_iff)
  have a: "download_datasets shell output_dir fs = (r, fs', ev) \<and> System c \<in> set ev \<longrightarrow>
            \<not> path_exists fs (command_dir c)
          \<and> (\<exists>d \<in> set ROBOFLOW_DATASETS. command_dir c = output_dir @ [fst d])"
    using cmds by blast
  have b: "download_datasets shell output_dir fs = (r, fs', ev)
            \<and> path_exists fs (output_dir @ [name]) \<and> System c \<in> set ev \<longrightarrow>
            command_dir c \<noteq> output_dir @ [name]"
    using cmds by metis
  have c: "download_datasets shell output_dir fs = (Inr u, fs1, ev1) \<longrightarrow>
            download_datasets shell output_dir fs1
              = (Inr (), fs1,
                 map (\<lambda>d. Print (AlreadyExists (fst d))) ROBOFLOW_DATASETS @ [Print AllDownloaded])
          \<and> \<not> list_ex is_network_call
                 (map (\<lambda>d. Print (AlreadyExists (fst d))) ROBOFLOW_DATASETS @ [Print AllDownloaded])"
    using second quiet by blast
  show ?thesis by (intro conjI a b c)
qed

theorem download_skips_present_datasets_witness:
  "keeps_dirs idle_shell [''raw'']
   \<and> download_datasets idle_shell [''raw''] demo_fs
       = (Inr (), demo_downloaded, snd (snd (download_datasets idle_shell [''raw''] demo_fs)))
   \<and> path_exists demo_fs ([''raw''] @ [''phone_1''])
   \<and> System (Curl ''https://app.roboflow.com/ds/f9k54F7Azq?key=eYssUekSYc''
               [''raw'', ''phone_2'', ''dataset.zip''])
       \<in> set (snd (snd (download_datasets idle_shell [''raw''] demo_fs)))
   \<and> \<not> path_exists demo_fs [''raw'', ''phone_2'']
   \<and> download_datasets idle_shell [''raw''] demo_downloaded
       = (Inr (), demo_downloaded,
          map (\<lambda>d. Print (AlreadyExists (fst d))) ROBOFLOW_DATASETS @ [Print AllDownloaded])"
proof -
  let ?c = "Curl ''https://app.roboflow.com/ds/f9k54F7Azq?key=eYssUekSYc''
               [''raw'', ''phone_2'', ''dataset.zip'']"
  let ?ev = "snd (snd (download_datasets idle_shell [''raw''] demo_fs))"
  have k: "keeps_dirs idle_shell [''raw'']"
    by (simp add: keeps_dirs_def idle_shell_def)
  have run: "download_datasets idle_shell [''raw''] demo_fs = (Inr (), demo_downloaded, ?ev)"
    by code_simp
  have e: "path_exists demo_fs ([''raw''] @ [''phone_1''])" by code_simp
  have c: "System ?c \<in> set ?ev" by code_simp
  have d: "command_dir ?c = [''raw'', ''phone_2'']" by simp
  note inst = download_skips_present_datasets [OF k, of demo_fs "Inr ()" demo_downloaded ?ev ?c
      "''phone_1''" "()" demo_downloaded ?ev]
  from inst run c d have "\<not> path_exists demo_fs [''raw'', ''phone_2'']" by simp
  moreover from inst run
  have "download_datasets idle_shell [''raw''] demo_downloaded
       = (Inr (), demo_downloaded,
          map (\<lambda>d. Print (AlreadyExists (fst d))) ROBOFLOW_DATASETS @ [Print AllDownloaded])"
    by blast
  ultimately show ?thesis using k run e c by simp
qed

section \<open>Merging a dataset of one image\<close>

lemma convert_line_known:
  assumes "py_split (py_strip line) = idx # rest" and "4 \<le> length rest"
    and "py_int idx = Inr i" and "py_len sc = Inr n" and "i < int n"
    and "py_getitem sc i = Inr (YStr cname)"
    and "map_of CLASS_MAPPING (py_strip (py_lower cname)) = Some target"
    and "list_index TARGET_CLASSES target = Inr k"
  shows "convert_line sc line = Inr (Some (py_join '' '' (py_str (int k) # rest)))"
  using assms
  by (simp add: convert_line_def Let_def normalize_value_def normalize_class_map_of)

lemma dataset_names:
  "name \<in> fst ` set ROBOFLOW_DATASETS \<Longrightarrow>
   name = ''phone_1'' \<or> name = ''phone_2'' \<or> name = ''paper_1'' \<or> name = ''paper_2''
   \<or> name = ''headphones_1'' \<or> name = ''headphones_2'' \<or> name = ''person_1''"
  by (auto simp: ROBOFLOW_DATASETS_def)

lemmas merge_defs =
  prepare_dataset_def clear_output_def build_merged_def path_exists_def
  ROBOFLOW_DATASETS_def convert_labels_def find_data_yaml_def has_file_def read_file_def
  listdir_def convert_image_def shutil_copy_def isdir_def path_name_def Let_def
  single_dataset_def merged_split_def

lemma merge_single_rewritten:
  assumes "name \<in> fst ` set ROBOFLOW_DATASETS"
    and "split_name = ''train'' \<or> split_name = ''valid'' \<or> split_name = ''test''"
    and "raw \<noteq> out"
    and "has_image_ext img"
    and "safe_load metadata = Inr config" and "config_names config = Inr nm"
    and "readlines label = [line]"
    and "convert_line (source_classes_of nm) line = Inr (Some new_line)"
  shows "prepare_dataset safe_load dump [raw] [out]
           (Dir [(raw, Dir [(name, single_dataset metadata split_name img data label)])])
         = (Inr [out, ''data.yaml''],
            Dir [(raw, Dir [(name, single_dataset metadata split_name img data label)]),
                 (out, Dir [(''train'', merged_split name img data new_line),
                            (''valid'', merged_split name img data new_line),
                            (''data.yaml'', File (dump (merged_manifest [out])))])],
            [Print Preparing, Print (Processing name),
             Print (SourceClasses (source_classes_of nm)),
             Print (SourceClasses (source_classes_of nm)), Print (Added 1 1),
             Print Prepared, Print (TotalTrain 1), Print (TotalValid 1),
             Print (Classes TARGET_CLASSES)])"
proof -
  note n = dataset_names [OF assms(1)]
  from assms(2) show ?thesis
  proof (elim disjE)
    assume "split_name = ''train''"
    with n assms(3-) show ?thesis
      by (elim disjE) (simp_all add: merge_defs)
  next
    assume "split_name = ''valid''"
    with n assms(3-) show ?thesis
      by (elim disjE) (simp_all add: merge_defs)
  next
    assume "split_name = ''test''"
    with n assms(3-) show ?thesis
      by (elim disjE) (simp_all add: merge_defs)
  qed
qed

text \<open>
  Claim C1, amended. Take a dataset under a configured name, with a metadata file, one
  image with a recognised extension in one of its splits, and a label file of one line
  whose class index points to a name that the synonym table maps to a target. The merge
  returns, and it leaves the raw dataset as it was and an output directory with the
  manifest and, in each of \<open>train\<close> and \<open>valid\<close>, exactly one image, named with the
  dataset prefix, and exactly one label file, whose single line is the source line with
  its first field replaced by the position of the target in \<open>TARGET_CLASSES\<close>.
\<close>

theorem merge_single_dataset:
  assumes "name \<in> fst ` set ROBOFLOW_DATASETS"
    and "split_name = ''train'' \<or> split_name = ''valid'' \<or> split_name = ''test''"
    and "raw \<noteq> out"
    and "has_image_ext img_file"
    and "safe_load metadata = Inr config" and "config_names config = Inr names"
    and "readlines label = [line]"
    and "py_split (py_strip line) = idx # rest" and "4 \<le> length rest"
    and "py_int idx = Inr i" and "py_len (source_classes_of names) = Inr n" and "i < int n"
    and "py_getitem (source_classes_of names) i = Inr (YStr class_name)"
    and "map_of CLASS_MAPPING (py_strip (py_lower class_name)) = Some target"
    and "list_index TARGET_CLASSES target = Inr k"
  shows "\<exists>ev. prepare_dataset safe_load dump [raw] [out]
           (Dir [(raw, Dir [(name, single_dataset metadata split_name img_file data label)])])
         = (Inr [out, ''data.yaml''],
            Dir [(raw, Dir [(name, single_dataset metadata split_name img_file data label)]),
                 (out,
                  Dir [(''train'',
                        merged_split name img_file data (py_join '' '' (py_str (int k) # rest))),
                       (''valid'',
                        merged_split name img_file data (py_join '' '' (py_str (int k) # rest))),
                       (''data.yaml'', File (dump (merged_manifest [out])))])],
            ev)"
proof -
  have "convert_line (source_classes_of names) line
      = Inr (Some (py_join '' '' (py_str (int k) # rest)))"
    using assms(8-15) by (rule convert_line_known)
  from merge_single_rewritten
         [where safe_load = safe_load and metadata = metadata, OF assms(1-7) this]
  show ?thesis
    by blast
qed

theorem merge_single_dataset_witness:
  "''phone_1'' \<in> fst ` set ROBOFLOW_DATASETS
   \<and> ''raw'' \<noteq> ''merged'' \<and> has_image_ext ''a.jpg''
   \<and> demo_load ''names: [mobile]'' = Inr (YDict [(YStr ''names'', YList [YStr ''mobile''])])
   \<and> config_names (YDict [(YStr ''names'', YList [YStr ''mobile''])]) = Inr (YList [YStr ''mobile''])
   \<and> readlines ''0 0.5 0.5 0.2 0.2'' = [''0 0.5 0.5 0.2 0.2'']
   \<and> py_split (py_strip ''0 0.5 0.5 0.2 0.2'') = ''0'' # [''0.5'', ''0.5'', ''0.2'', ''0.2'']
   \<and> py_int ''0'' = Inr 0
   \<and> py_len (source_classes_of (YList [YStr ''mobile''])) = Inr 1
   \<and> py_getitem (source_classes_of (YList [YStr ''mobile''])) 0 = Inr (YStr ''mobile'')
   \<and> map_of CLASS_MAPPING (py_strip (py_lower ''mobile'')) = Some ''phone''
   \<and> list_index TARGET_CLASSES ''phone'' = Inr 1
   \<and> (\<exists>ev. prepare_dataset demo_load demo_dump [''raw''] [''merged'']
          (Dir [(''raw'', Dir [(''phone_1'',
              single_dataset ''names: [mobile]'' ''train'' ''a.jpg'' ''JPEG'' ''0 0.5 0.5 0.2 0.2'')])])
        = (Inr [''merged'', ''data.yaml''],
           Dir [(''raw'', Dir [(''phone_1'',
              single_dataset ''names: [mobile]'' ''train'' ''a.jpg'' ''JPEG'' ''0 0.5 0.5 0.2 0.2'')]),
                (''merged'',
                 Dir [(''train'', merged_split ''phone_1'' ''a.jpg'' ''JPEG''
                          (py_join '' '' (py_str (int 1) # [''0.5'', ''0.5'', ''0.2'', ''0.2'']))),
                      (''valid'', merged_split ''phone_1'' ''a.jpg'' ''JPEG''
                          (py_join '' '' (py_str (int 1) # [''0.5'', ''0.5'', ''0.2'', ''0.2'']))),
                      (''data.yaml'', File (demo_dump (merged_manifest [''merged''])))])],
           ev))"
proof -
  have a: "''phone_1'' \<in> fst ` set ROBOFLOW_DATASETS" by (simp add: ROBOFLOW_DATASETS_def)
  have b: "''train'' = ''train'' \<or> ''train'' = ''valid'' \<or> ''train'' = ''test''" by simp
  have c: "''raw'' \<noteq> ''merged''" by simp
  have d: "has_image_ext ''a.jpg''" by code_simp
  have e: "demo_load ''names: [mobile]'' = Inr (YDict [(YStr ''names'', YList [YStr ''mobile''])])"
    by (simp add: demo_load_def)
  have f: "config_names (YDict [(YStr ''names'', YList [YStr ''mobile''])])
      = Inr (YList [YStr ''mobile''])" by code_simp
  have g: "readlines ''0 0.5 0.5 0.2 0.2'' = [''0 0.5 0.5 0.2 0.2'']" by code_simp
  have h: "py_split (py_strip ''0 0.5 0.5 0.2 0.2'') = ''0'' # [''0.5'', ''0.5'', ''0.2'', ''0.2'']"
    by code_simp
  have i: "4 \<le> length [''0.5'', ''0.5'', ''0.2'', ''0.2'']" by simp
  have j: "py_int ''0'' = Inr 0" by code_simp
  have k: "py_len (source_classes_of (YList [YStr ''mobile''])) = Inr 1" by code_simp
  have l: "(0::int) < int 1" by simp
  have m: "py_getitem (source_classes_of (YList [YStr ''mobile''])) 0 = Inr (YStr ''mobile'')"
    by code_simp
  have n: "map_of CLASS_MAPPING (py_strip (py_lower ''mobile'')) = Some ''phone''" by code_simp
  have o: "list_index TARGET_CLASSES ''phone'' = Inr 1" by code_simp
  from merge_single_dataset
         [where safe_load = demo_load and metadata = "''names: [mobile]''"
            and dump = demo_dump and data = "''JPEG''",
          OF a b c d e f g h i j k l m n o]
    a c d e f g h j k m n o
  show ?thesis by blast
qed

text \<open>
  The claim C1 as it was stated fails: \<open>prepare_dataset\<close> converts every dataset once
  into \<open>train\<close> and once into \<open>valid\<close>, each time from all the splits of the source, so
  the output of the synthetic dataset holds two images and two label files.
\<close>

theorem merge_single_dataset_counterexample:
  "image_files demo_fs [''raw''] = [[''raw'', ''phone_1'', ''train'', ''images'', ''a.jpg'']]
   \<and> label_files demo_fs [''raw''] = [[''raw'', ''phone_1'', ''train'', ''labels'', ''a.txt'']]
   \<and> image_files (fst (snd (prepare_dataset demo_load demo_dump [''raw''] [''merged''] demo_fs)))
        [''merged'']
      = [[''merged'', ''train'', ''images'', ''phone_1_a.jpg''],
         [''merged'', ''valid'', ''images'', ''phone_1_a.jpg'']]
   \<and> label_files (fst (snd (prepare_dataset demo_load demo_dump [''raw''] [''merged''] demo_fs)))
        [''merged'']
      = [[''merged'', ''train'', ''labels'', ''phone_1_a.txt''],
         [''merged'', ''valid'', ''labels'', ''phone_1_a.txt'']]
   \<and> \<not> (length (image_files
              (fst (snd (prepare_dataset demo_load demo_dump [''raw''] [''merged''] demo_fs)))
              [''merged'']) = 1
         \<and> length (label_files
              (fst (snd (prepare_dataset demo_load demo_dump [''raw''] [''merged''] demo_fs)))
              [''merged'']) = 1)"
  by code_simp

end
